theory Spec2Isabelle
  imports Main
begin

section \<open>Values of the host language and \<open>unwrap\<close>\<close>

text \<open>
  \<^verbatim>\<open>src/index.ts\<close> exists in two versions: the hook \<^verbatim>\<open>useFormState\<close> built on
  \<^verbatim>\<open>React.useState\<close> (lines 1 to 49) and the same hook built on \<^verbatim>\<open>React.useReducer\<close>
  (lines 50 to 134). Both are embedded here, with the suffixes \<open>V1\<close> and \<open>V2\<close>.

  The hook is written in TypeScript and runs on untyped JavaScript values. The code
  inspects two properties of a value: the first version tests
  \<^verbatim>\<open>valueOrFn instanceof Function\<close> (is \<^verbatim>\<open>Function.prototype\<close> of the hook's realm on the
  prototype chain), the second tests \<^verbatim>\<open>typeof valueOrFunction === 'function'\<close> (is the
  value callable). The two tests are independent, so there are four kinds of values:
  \<^item> \<open>Plain\<close>: neither, what one usually calls a value. Equality on \<open>'a\<close> stands for
    \<^verbatim>\<open>Object.is\<close>.
  \<^item> \<open>Callable\<close>: both, an ordinary function of the hook's realm, \<open>'f\<close> being its identity.
  \<^item> \<open>CrossRealm\<close>: callable, but not an instance of the hook's \<^verbatim>\<open>Function\<close>; a function
    that comes from another realm (an iframe, a \<^verbatim>\<open>vm\<close> context) or whose prototype was
    replaced.
  \<^item> \<open>Impostor\<close>: an instance of \<^verbatim>\<open>Function\<close> that is not callable, such as
    \<^verbatim>\<open>Object.create(Function.prototype)\<close>.

  What a function does when it is invoked is a parameter \<open>call\<close> of the model:
  \<open>call fn args\<close> is \<open>Inr r\<close> when the invocation returns \<open>r\<close> and \<open>Inl e\<close> when it
  throws \<open>e\<close>. A fault is either something a function throws with \<^verbatim>\<open>throw\<close> or the
  \<^verbatim>\<open>TypeError\<close> that the language raises when a call expression is applied to a value that
  is not callable.
\<close>

datatype ('a, 'f) jsval = Plain 'a | Callable 'f | CrossRealm 'f | Impostor 'a

datatype 'e fault = Thrown 'e | TypeError

type_synonym ('e, 'a, 'f) invoke =
  "'f \<Rightarrow> ('a, 'f) jsval list \<Rightarrow> 'e fault + ('a, 'f) jsval"

definition instanceofFunction :: "('a, 'f) jsval \<Rightarrow> bool" where
  "instanceofFunction x =
     (case x of Plain a \<Rightarrow> False | Callable fn \<Rightarrow> True | CrossRealm fn \<Rightarrow> False
              | Impostor a \<Rightarrow> True)"

definition typeofFunction :: "('a, 'f) jsval \<Rightarrow> bool" where
  "typeofFunction x =
     (case x of Plain a \<Rightarrow> False | Callable fn \<Rightarrow> True | CrossRealm fn \<Rightarrow> True
              | Impostor a \<Rightarrow> False)"

text \<open>The call expression \<^verbatim>\<open>valueOrFn(...args)\<close>.\<close>

definition callValue ::
  "('e, 'a, 'f) invoke \<Rightarrow> ('a, 'f) jsval \<Rightarrow> ('a, 'f) jsval list
     \<Rightarrow> 'e fault + ('a, 'f) jsval" where
  "callValue call valueOrFn args =
     (case valueOrFn of
        Plain a \<Rightarrow> Inl TypeError
      | Callable fn \<Rightarrow> call fn args
      | CrossRealm fn \<Rightarrow> call fn args
      | Impostor a \<Rightarrow> Inl TypeError)"

text \<open>
  First version, lines 10 to 12:
  \<^verbatim>\<open>function unwrap(valueOrFn, ...args) {
    return valueOrFn instanceof Function ? valueOrFn(...args) : valueOrFn }\<close>
\<close>

definition unwrapV1 ::
  "('e, 'a, 'f) invoke \<Rightarrow> ('a, 'f) jsval \<Rightarrow> ('a, 'f) jsval list
     \<Rightarrow> 'e fault + ('a, 'f) jsval" where
  "unwrapV1 call valueOrFn args =
     (if instanceofFunction valueOrFn then callValue call valueOrFn args else Inr valueOrFn)"

text \<open>
  Second version, lines 69 to 73:
  \<^verbatim>\<open>function unwrap(valueOrFunction, ...args) {
    return typeof valueOrFunction === 'function'
      ? (valueOrFunction as (...args: A) => T)(...args) : valueOrFunction }\<close>
\<close>

definition unwrapV2 ::
  "('e, 'a, 'f) invoke \<Rightarrow> ('a, 'f) jsval \<Rightarrow> ('a, 'f) jsval list
     \<Rightarrow> 'e fault + ('a, 'f) jsval" where
  "unwrapV2 call valueOrFunction args =
     (if typeofFunction valueOrFunction then callValue call valueOrFunction args
      else Inr valueOrFunction)"

text \<open>The values on which the two tests give the same answer.\<close>

definition ordinary :: "('a, 'f) jsval \<Rightarrow> bool" where
  "ordinary x = (instanceofFunction x = typeofFunction x)"

section \<open>The persisted state\<close>

text \<open>
  \<^verbatim>\<open>type FormState<T> = { isChanged: false } | { isChanged: true; value: T }\<close>
\<close>

datatype 'v FormState = Unchanged | Changed 'v

definition isChanged :: "'v FormState \<Rightarrow> bool" where
  "isChanged s = (case s of Unchanged \<Rightarrow> False | Changed v \<Rightarrow> True)"

text \<open>
  The expression \<^verbatim>\<open>state.isChanged ? state.value : initialStateValue\<close>, which both
  versions use for the returned value and for the argument of a functional updater.
\<close>

definition effectiveValue :: "'v FormState \<Rightarrow> 'v \<Rightarrow> 'v" where
  "effectiveValue s initialStateValue =
     (case s of Changed v \<Rightarrow> v | Unchanged \<Rightarrow> initialStateValue)"

section \<open>What the hook relies on from React\<close>

text \<open>
  The hook calls three functions of the React library. Their behaviour, as far as the hook
  depends on it, is part of the model:
  \<^item> \<^verbatim>\<open>useState\<close> and \<^verbatim>\<open>useReducer\<close> keep one state per component instance. A call of the
    setter or of \<^verbatim>\<open>dispatch\<close> queues its argument; the queue is applied to the state, in
    the order of the calls, when the hook runs in the next render. \<^verbatim>\<open>useState\<close> applies
    a queued function to the previous state and lets a queued object replace it;
    \<^verbatim>\<open>useReducer\<close> applies the reducer passed by the render that processes the queue
    (``Reducers can access latest props to calculate the next state'', as the comment in
    the second version puts it). A function that throws while the queue is applied makes
    the render throw.
  \<^item> \<^verbatim>\<open>dispatch\<close> is the same function object in every render of an instance.
  \<^item> \<^verbatim>\<open>useCallback(callback, deps)\<close> keeps one cell per call site: it returns the
    callback of an earlier render as long as every dependency is \<^verbatim>\<open>Object.is\<close>-equal to the
    stored one, and the callback of this render (storing it with its dependencies)
    otherwise and on the first render.
\<close>

definition useCallback ::
  "'h \<Rightarrow> 'd list \<Rightarrow> ('d list \<times> 'h) option \<Rightarrow> 'h \<times> ('d list \<times> 'h) option" where
  "useCallback callback deps cell =
     (case cell of
        None \<Rightarrow> (callback, Some (deps, callback))
      | Some (prevDeps, prevCallback) \<Rightarrow>
          if prevDeps = deps then (prevCallback, Some (prevDeps, prevCallback))
          else (callback, Some (deps, callback)))"

section \<open>The \<open>useState\<close>-based hook\<close>

text \<open>
  \<^verbatim>\<open>setFormState\<close> is called at two places: by \<^verbatim>\<open>setState\<close> with the updater function
  \<^verbatim>\<open>(prevState) => ({ isChanged: true, value: unwrap(value, prevState.isChanged ?
  prevState.value : unwrappedInitialState) })\<close>, a closure over the payload \<^verbatim>\<open>value\<close>
  and over the \<^verbatim>\<open>unwrappedInitialState\<close> of the render that created \<^verbatim>\<open>setState\<close>; and
  by \<^verbatim>\<open>reset\<close> with the object \<^verbatim>\<open>{ isChanged: false }\<close>. A queued update is one of the
  two, the closure being represented by what it captured: \<open>SetStateUpdater value
  unwrappedInitialState\<close>.
\<close>

datatype 'v FormUpdate = SetStateUpdater 'v 'v | ResetObject

text \<open>An update applied to the previous state: the updater function is called on it,
  the object replaces it.\<close>

fun applyUpdate ::
  "('e, 'a, 'f) invoke \<Rightarrow> ('a, 'f) jsval FormUpdate \<Rightarrow> ('a, 'f) jsval FormState
     \<Rightarrow> 'e fault + ('a, 'f) jsval FormState" where
  "applyUpdate call (SetStateUpdater value unwrappedInitialState) prevState =
     (case unwrapV1 call value [effectiveValue prevState unwrappedInitialState] of
        Inl e \<Rightarrow> Inl e
      | Inr newValue \<Rightarrow> Inr (Changed newValue))"
| "applyUpdate call ResetObject prevState = Inr Unchanged"

text \<open>The queue applied in the order of the calls, stopping at the first fault.\<close>

fun applyUpdates ::
  "('e, 'a, 'f) invoke \<Rightarrow> ('a, 'f) jsval FormState \<Rightarrow> ('a, 'f) jsval FormUpdate list
     \<Rightarrow> 'e fault + ('a, 'f) jsval FormState" where
  "applyUpdates call s [] = Inr s"
| "applyUpdates call s (u # us) =
     (case applyUpdate call u s of Inl e \<Rightarrow> Inl e | Inr s' \<Rightarrow> applyUpdates call s' us)"

text \<open>
  Every render evaluates the two arrow expressions and so creates two new function
  objects. One created for \<^verbatim>\<open>setState\<close> is identified by the render that created it
  (\<open>born\<close>) and carries the \<^verbatim>\<open>unwrappedInitialState\<close> it closed over (\<open>captured\<close>); one
  created for \<^verbatim>\<open>reset\<close> closes over nothing that varies.
\<close>

datatype 'v SetStateV1 = SetStateV1 (born: nat) (captured: 'v)

datatype ResetFn = ResetFn nat

text \<open>A component instance: the state and the queue of \<^verbatim>\<open>useState\<close>, the cells of the
  two \<^verbatim>\<open>useCallback\<close> calls, and the number of renders so far.\<close>

record 'v InstanceV1 =
  formState :: "'v FormState"
  pending :: "'v FormUpdate list"
  setStateCell :: "('v list \<times> 'v SetStateV1) option"
  resetCell :: "('v list \<times> ResetFn) option"
  renders :: nat

text \<open>An instance before its first render: \<^verbatim>\<open>React.useState({ isChanged: false })\<close>.\<close>

definition mountV1 :: "'v InstanceV1" where
  "mountV1 = \<lparr>formState = Unchanged, pending = [], setStateCell = None, resetCell = None,
              renders = 0\<rparr>"

text \<open>
  One render: the body of \<^verbatim>\<open>useFormState\<close> (lines 14 to 49), top to bottom. The result
  is the fault thrown, or the returned triple \<^verbatim>\<open>[state, setState, reset]\<close> with the
  instance as the render leaves it.
\<close>

definition useFormStateV1 ::
  "('e, 'a, 'f) invoke \<Rightarrow> ('a, 'f) jsval \<Rightarrow> ('a, 'f) jsval InstanceV1
     \<Rightarrow> 'e fault + ((('a, 'f) jsval \<times> ('a, 'f) jsval SetStateV1 \<times> ResetFn) \<times> ('a, 'f) jsval InstanceV1)"
  where
  "useFormStateV1 call initialState inst =
     (case unwrapV1 call initialState [] of
        Inl e \<Rightarrow> Inl e
      | Inr unwrappedInitialState \<Rightarrow>
          (case applyUpdates call (formState inst) (pending inst) of
             Inl e \<Rightarrow> Inl e
           | Inr formState' \<Rightarrow>
               (let (setState, setStateCell') =
                      useCallback (SetStateV1 (renders inst) unwrappedInitialState)
                        [unwrappedInitialState] (setStateCell inst);
                    (reset, resetCell') =
                      useCallback (ResetFn (renders inst)) [] (resetCell inst)
                in Inr ((effectiveValue formState' unwrappedInitialState, setState, reset),
                        \<lparr>formState = formState', pending = [],
                         setStateCell = setStateCell', resetCell = resetCell',
                         renders = Suc (renders inst)\<rparr>))))"

text \<open>Calling a handle queues an update: \<^verbatim>\<open>setState(value)\<close> the updater that closes over
  \<^verbatim>\<open>value\<close> and over what the handle captured, \<^verbatim>\<open>reset()\<close> the object.\<close>

definition setStateV1 ::
  "'v SetStateV1 \<Rightarrow> 'v \<Rightarrow> 'v InstanceV1 \<Rightarrow> 'v InstanceV1" where
  "setStateV1 h value inst =
     inst\<lparr>pending := pending inst @ [SetStateUpdater value (captured h)]\<rparr>"

definition resetV1 :: "'v InstanceV1 \<Rightarrow> 'v InstanceV1" where
  "resetV1 inst = inst\<lparr>pending := pending inst @ [ResetObject]\<rparr>"

section \<open>The \<open>useReducer\<close>-based hook\<close>

text \<open>
  \<^verbatim>\<open>type FormAction<S> = { type: 'SET_STATE'; payload: S | ((prevState: S) => S) }
                     | { type: 'RESET' }\<close>
\<close>

datatype 'v FormAction = SET_STATE 'v | RESET

text \<open>The reducer passed to \<^verbatim>\<open>React.useReducer\<close> (lines 89 to 101); it is a closure over
  the \<^verbatim>\<open>initialStateValue\<close> of the render that passes it.\<close>

fun reducer ::
  "('e, 'a, 'f) invoke \<Rightarrow> ('a, 'f) jsval \<Rightarrow> ('a, 'f) jsval FormState
     \<Rightarrow> ('a, 'f) jsval FormAction \<Rightarrow> 'e fault + ('a, 'f) jsval FormState" where
  "reducer call initialStateValue state (SET_STATE payload) =
     (case unwrapV2 call payload [effectiveValue state initialStateValue] of
        Inl e \<Rightarrow> Inl e
      | Inr v \<Rightarrow> Inr (Changed v))"
| "reducer call initialStateValue state RESET = Inr Unchanged"

text \<open>The queue reduced in the order of the calls, stopping at the first fault.\<close>

fun reduceAll ::
  "('e, 'a, 'f) invoke \<Rightarrow> ('a, 'f) jsval \<Rightarrow> ('a, 'f) jsval FormState
     \<Rightarrow> ('a, 'f) jsval FormAction list \<Rightarrow> 'e fault + ('a, 'f) jsval FormState" where
  "reduceAll call initialStateValue s [] = Inr s"
| "reduceAll call initialStateValue s (a # as) =
     (case reducer call initialStateValue s a of
        Inl e \<Rightarrow> Inl e
      | Inr s' \<Rightarrow> reduceAll call initialStateValue s' as)"

text \<open>The dependency list of both callbacks is \<^verbatim>\<open>[dispatch]\<close>, one function object for
  the life of the instance; the callbacks close over nothing else.\<close>

datatype Dispatch = Dispatch

datatype SetStateV2 = SetStateV2 nat

record 'v InstanceV2 =
  state :: "'v FormState"
  dispatched :: "'v FormAction list"
  setStateCell2 :: "(Dispatch list \<times> SetStateV2) option"
  resetCell2 :: "(Dispatch list \<times> ResetFn) option"
  renders2 :: nat

definition mountV2 :: "'v InstanceV2" where
  "mountV2 = \<lparr>state = Unchanged, dispatched = [], setStateCell2 = None, resetCell2 = None,
              renders2 = 0\<rparr>"

text \<open>One render: the body of \<^verbatim>\<open>useFormState\<close> (lines 83 to 134), top to bottom.\<close>

definition useFormStateV2 ::
  "('e, 'a, 'f) invoke \<Rightarrow> ('a, 'f) jsval \<Rightarrow> ('a, 'f) jsval InstanceV2
     \<Rightarrow> 'e fault + ((('a, 'f) jsval \<times> SetStateV2 \<times> ResetFn) \<times> ('a, 'f) jsval InstanceV2)"
  where
  "useFormStateV2 call initialState inst =
     (case unwrapV2 call initialState [] of
        Inl e \<Rightarrow> Inl e
      | Inr initialStateValue \<Rightarrow>
          (case reduceAll call initialStateValue (state inst) (dispatched inst) of
             Inl e \<Rightarrow> Inl e
           | Inr state' \<Rightarrow>
               (let (setState, setStateCell') =
                      useCallback (SetStateV2 (renders2 inst)) [Dispatch] (setStateCell2 inst);
                    (reset, resetCell') =
                      useCallback (ResetFn (renders2 inst)) [Dispatch] (resetCell2 inst)
                in Inr ((effectiveValue state' initialStateValue, setState, reset),
                        \<lparr>state = state', dispatched = [],
                         setStateCell2 = setStateCell', resetCell2 = resetCell',
                         renders2 = Suc (renders2 inst)\<rparr>))))"

text \<open>Calling a handle dispatches an action.\<close>

definition setStateV2 :: "'v \<Rightarrow> 'v InstanceV2 \<Rightarrow> 'v InstanceV2" where
  "setStateV2 value inst = inst\<lparr>dispatched := dispatched inst @ [SET_STATE value]\<rparr>"

definition resetV2 :: "'v InstanceV2 \<Rightarrow> 'v InstanceV2" where
  "resetV2 inst = inst\<lparr>dispatched := dispatched inst @ [RESET]\<rparr>"

section \<open>Executions\<close>

text \<open>
  What the owner of a component instance can do: render it with an \<^verbatim>\<open>initialState\<close>
  argument, or call one of the two handles returned by the latest render (before the first
  render there is no handle to call).
\<close>

datatype 'v call = SetValue 'v | Reset

datatype 'v event = Render 'v | Call "'v call"

fun callV1 :: "'v SetStateV1 \<times> ResetFn \<Rightarrow> 'v call \<Rightarrow> 'v InstanceV1 \<Rightarrow> 'v InstanceV1" where
  "callV1 (setState, reset) (SetValue value) inst = setStateV1 setState value inst"
| "callV1 (setState, reset) Reset inst = resetV1 inst"

fun callV2 :: "'v call \<Rightarrow> 'v InstanceV2 \<Rightarrow> 'v InstanceV2" where
  "callV2 (SetValue value) inst = setStateV2 value inst"
| "callV2 Reset inst = resetV2 inst"

text \<open>What a call queues in the first version, and what it dispatches in the second.\<close>

definition updateOf :: "'v SetStateV1 \<times> ResetFn \<Rightarrow> 'v call \<Rightarrow> 'v FormUpdate" where
  "updateOf handles c =
     (case c of SetValue value \<Rightarrow> SetStateUpdater value (captured (fst handles))
              | Reset \<Rightarrow> ResetObject)"

definition actionOf :: "'v call \<Rightarrow> 'v FormAction" where
  "actionOf c = (case c of SetValue value \<Rightarrow> SET_STATE value | Reset \<Rightarrow> RESET)"

text \<open>A batch: several calls through the same handles with no render in between.\<close>

fun callsV1 ::
  "'v SetStateV1 \<times> ResetFn \<Rightarrow> 'v call list \<Rightarrow> 'v InstanceV1 \<Rightarrow> 'v InstanceV1" where
  "callsV1 handles [] inst = inst"
| "callsV1 handles (c # cs) inst = callsV1 handles cs (callV1 handles c inst)"

fun callsV2 :: "'v call list \<Rightarrow> 'v InstanceV2 \<Rightarrow> 'v InstanceV2" where
  "callsV2 [] inst = inst"
| "callsV2 (c # cs) inst = callsV2 cs (callV2 c inst)"

text \<open>
  An execution yields one outcome per render, the returned triple or the fault that the
  render threw; a fault ends it. \<open>held\<close> are the handles of the latest render.
\<close>

fun runV1 ::
  "('e, 'a, 'f) invoke \<Rightarrow> ('a, 'f) jsval InstanceV1
     \<Rightarrow> (('a, 'f) jsval SetStateV1 \<times> ResetFn) option \<Rightarrow> ('a, 'f) jsval event list
     \<Rightarrow> ('e fault + (('a, 'f) jsval \<times> ('a, 'f) jsval SetStateV1 \<times> ResetFn)) list" where
  "runV1 call inst held [] = []"
| "runV1 call inst held (Render initialState # evs) =
     (case useFormStateV1 call initialState inst of
        Inl e \<Rightarrow> [Inl e]
      | Inr (out, inst') \<Rightarrow> Inr out # runV1 call inst' (Some (snd out)) evs)"
| "runV1 call inst held (Call c # evs) =
     (case held of
        None \<Rightarrow> runV1 call inst held evs
      | Some handles \<Rightarrow> runV1 call (callV1 handles c inst) held evs)"

fun runV2 ::
  "('e, 'a, 'f) invoke \<Rightarrow> ('a, 'f) jsval InstanceV2
     \<Rightarrow> (SetStateV2 \<times> ResetFn) option \<Rightarrow> ('a, 'f) jsval event list
     \<Rightarrow> ('e fault + (('a, 'f) jsval \<times> SetStateV2 \<times> ResetFn)) list" where
  "runV2 call inst held [] = []"
| "runV2 call inst held (Render initialState # evs) =
     (case useFormStateV2 call initialState inst of
        Inl e \<Rightarrow> [Inl e]
      | Inr (out, inst') \<Rightarrow> Inr out # runV2 call inst' (Some (snd out)) evs)"
| "runV2 call inst held (Call c # evs) =
     (case held of
        None \<Rightarrow> runV2 call inst held evs
      | Some handles \<Rightarrow> runV2 call (callV2 c inst) held evs)"

text \<open>The arguments of the renders of an execution, in order.\<close>

fun renderArgs :: "'v event list \<Rightarrow> 'v list" where
  "renderArgs [] = []"
| "renderArgs (Render initialState # evs) = initialState # renderArgs evs"
| "renderArgs (Call c # evs) = renderArgs evs"

text \<open>The effective value in the outcome of a render within an execution, and in the
  result of a single render; the fault when there is one.\<close>

definition effective :: "'e + ('v \<times> 'h) \<Rightarrow> 'e + 'v" where
  "effective outcome = (case outcome of Inl e \<Rightarrow> Inl e | Inr out \<Rightarrow> Inr (fst out))"

definition rendered :: "'e + (('v \<times> 'h) \<times> 'i) \<Rightarrow> 'e + 'v" where
  "rendered result = (case result of Inl e \<Rightarrow> Inl e | Inr (out, inst) \<Rightarrow> Inr (fst out))"

section \<open>Consistent instances, folds and executions in step\<close>

text \<open>
  Consistency of the callback cells: a cell filled by \<^verbatim>\<open>useCallback\<close> holds the
  dependencies the stored callback was created with, and that callback was created by an
  earlier render. Fresh instances are consistent, and renders and calls keep them so.
\<close>

definition cellsV1 :: "'v InstanceV1 \<Rightarrow> bool" where
  "cellsV1 inst =
     ((case setStateCell inst of
         None \<Rightarrow> True
       | Some (deps, h) \<Rightarrow> deps = [captured h] \<and> born h < renders inst)
      \<and> (case resetCell inst of None \<Rightarrow> True | Some (deps, r) \<Rightarrow> deps = []))"

definition cellsV2 :: "'v InstanceV2 \<Rightarrow> bool" where
  "cellsV2 inst =
     ((case setStateCell2 inst of None \<Rightarrow> True | Some (deps, h) \<Rightarrow> deps = [Dispatch])
      \<and> (case resetCell2 inst of None \<Rightarrow> True | Some (deps, r) \<Rightarrow> deps = [Dispatch]))"


text \<open>The action that the second version dispatches where the first queues an update.\<close>

fun eraseUpdate :: "'v FormUpdate \<Rightarrow> 'v FormAction" where
  "eraseUpdate (SetStateUpdater value unwrappedInitialState) = SET_STATE value"
| "eraseUpdate ResetObject = RESET"

text \<open>
  \<open>fresh call v s us\<close>: when the queue \<open>us\<close> of the first version is applied to the state
  \<open>s\<close> by a render whose argument resolves to \<open>v\<close>, every payload is a value on which the
  two callability tests agree, and every function payload that is applied while the
  state is \<open>Unchanged\<close> comes with the captured external value \<open>v\<close>. Nothing is asked of
  the updates behind one that throws, since they are never applied.
\<close>

fun fresh ::
  "('e, 'a, 'f) invoke \<Rightarrow> ('a, 'f) jsval \<Rightarrow> ('a, 'f) jsval FormState
     \<Rightarrow> ('a, 'f) jsval FormUpdate list \<Rightarrow> bool" where
  "fresh call v s [] = True"
| "fresh call v s (ResetObject # us) = fresh call v Unchanged us"
| "fresh call v s (SetStateUpdater value unwrappedInitialState # us) =
     (ordinary value
      \<and> (s = Unchanged \<and> typeofFunction value \<longrightarrow> unwrappedInitialState = v)
      \<and> (case applyUpdate call (SetStateUpdater value unwrappedInitialState) s of
            Inl e \<Rightarrow> True
          | Inr s' \<Rightarrow> fresh call v s' us))"

text \<open>
  Executions in step: every render argument is a value on which the two callability
  tests agree, and every render finds a fresh queue. Nothing is asked of what follows a
  render that throws, since the execution ends there.
\<close>

fun inStep ::
  "('e, 'a, 'f) invoke \<Rightarrow> ('a, 'f) jsval InstanceV1
     \<Rightarrow> (('a, 'f) jsval SetStateV1 \<times> ResetFn) option \<Rightarrow> ('a, 'f) jsval event list \<Rightarrow> bool"
  where
  "inStep call inst held [] = True"
| "inStep call inst held (Render initialState # evs) =
     (ordinary initialState
      \<and> (case unwrapV1 call initialState [] of
            Inl e \<Rightarrow> True
          | Inr v \<Rightarrow>
              fresh call v (formState inst) (pending inst)
              \<and> (case useFormStateV1 call initialState inst of
                    Inl e \<Rightarrow> True
                  | Inr (out, inst') \<Rightarrow> inStep call inst' (Some (snd out)) evs)))"
| "inStep call inst held (Call c # evs) =
     (case held of
        None \<Rightarrow> inStep call inst held evs
      | Some handles \<Rightarrow> inStep call (callV1 handles c inst) held evs)"

section \<open>A concrete host for evaluation\<close>

text \<open>Numbers as plain values and four functions: the successor (which throws when its
  argument is not a number), a constant function, a function that throws, and a function
  that returns itself.\<close>

datatype demoFn = Inc | Const int | Throw | Self

fun demoCall :: "(string, int, demoFn) invoke" where
  "demoCall Inc [Plain n] = Inr (Plain (n + 1))"
| "demoCall Inc args = Inl (Thrown ''not a number'')"
| "demoCall (Const k) args = Inr (Plain k)"
| "demoCall Throw args = Inl (Thrown ''boom'')"
| "demoCall Self args = Inr (Callable Self)"

text \<open>The instances reached from a fresh one by a first render with the argument \<open>1\<close>;
  that render returns the handles stored in the cells.\<close>

definition demoInstV1 :: "(int, demoFn) jsval InstanceV1" where
  "demoInstV1 = \<lparr>formState = Unchanged, pending = [],
                 setStateCell = Some ([Plain 1], SetStateV1 0 (Plain 1)),
                 resetCell = Some ([], ResetFn 0), renders = 1\<rparr>"

definition demoInstV2 :: "(int, demoFn) jsval InstanceV2" where
  "demoInstV2 = \<lparr>state = Unchanged, dispatched = [],
                 setStateCell2 = Some ([Dispatch], SetStateV2 0),
                 resetCell2 = Some ([Dispatch], ResetFn 0), renders2 = 1\<rparr>"

section \<open>Basic facts\<close>

lemma unwrapV1_simps [simp]:
  "unwrapV1 call (Plain a) args = Inr (Plain a)"
  "unwrapV1 call (Callable fn) args = call fn args"
  "unwrapV1 call (CrossRealm fn) args = Inr (CrossRealm fn)"
  "unwrapV1 call (Impostor a) args = Inl TypeError"
  by (simp_all add: unwrapV1_def instanceofFunction_def callValue_def)

lemma unwrapV2_simps [simp]:
  "unwrapV2 call (Plain a) args = Inr (Plain a)"
  "unwrapV2 call (Callable fn) args = call fn args"
  "unwrapV2 call (CrossRealm fn) args = call fn args"
  "unwrapV2 call (Impostor a) args = Inr (Impostor a)"
  by (simp_all add: unwrapV2_def typeofFunction_def callValue_def)

lemma ordinary_simps [simp]:
  "ordinary (Plain a)" "ordinary (Callable fn)"
  "\<not> ordinary (CrossRealm fn)" "\<not> ordinary (Impostor a)"
  by (simp_all add: ordinary_def instanceofFunction_def typeofFunction_def)

lemma typeofFunction_simps [simp]:
  "\<not> typeofFunction (Plain a)" "typeofFunction (Callable fn)"
  "typeofFunction (CrossRealm fn)" "\<not> typeofFunction (Impostor a)"
  by (simp_all add: typeofFunction_def)

lemma ordinary_unwrap: "ordinary x \<Longrightarrow> unwrapV1 call x args = unwrapV2 call x args"
  by (cases x) simp_all

lemma effectiveValue_simps [simp]:
  "effectiveValue Unchanged i = i"
  "effectiveValue (Changed v) i = v"
  by (simp_all add: effectiveValue_def)

lemma useFormStateV1_fault:
  "unwrapV1 call a [] = Inl e \<Longrightarrow> useFormStateV1 call a inst = Inl e"
  by (simp add: useFormStateV1_def)

lemma useFormStateV1_ok:
  assumes "unwrapV1 call a [] = Inr v"
    and "applyUpdates call (formState inst) (pending inst) = Inr s"
  shows "\<exists>h r inst'. useFormStateV1 call a inst = Inr ((effectiveValue s v, h, r), inst')
           \<and> formState inst' = s \<and> pending inst' = []"
  using assms by (simp add: useFormStateV1_def Let_def split: prod.splits)

lemma useFormStateV2_fault:
  "unwrapV2 call a [] = Inl e \<Longrightarrow> useFormStateV2 call a inst = Inl e"
  by (simp add: useFormStateV2_def)

lemma useFormStateV2_ok:
  assumes "unwrapV2 call a [] = Inr v"
    and "reduceAll call v (state inst) (dispatched inst) = Inr s"
  shows "\<exists>h r inst'. useFormStateV2 call a inst = Inr ((effectiveValue s v, h, r), inst')
           \<and> state inst' = s \<and> dispatched inst' = []"
  using assms by (simp add: useFormStateV2_def Let_def split: prod.splits)

subsection \<open>Queues\<close>

lemma applyUpdates_append:
  "applyUpdates call s (us @ ws) =
     (case applyUpdates call s us of Inl e \<Rightarrow> Inl e | Inr s' \<Rightarrow> applyUpdates call s' ws)"
  by (induction us arbitrary: s) (auto split: sum.splits)

lemma reduceAll_append:
  "reduceAll call v s (as @ bs) =
     (case reduceAll call v s as of Inl e \<Rightarrow> Inl e | Inr s' \<Rightarrow> reduceAll call v s' bs)"
  by (induction as arbitrary: s) (auto split: sum.splits)

lemma applyUpdates_snoc:
  "applyUpdates call s us = Inr s' \<Longrightarrow> applyUpdates call s (us @ [u]) = applyUpdate call u s'"
  by (simp add: applyUpdates_append split: sum.splits)

lemma reduceAll_snoc:
  "reduceAll call v s as = Inr s' \<Longrightarrow> reduceAll call v s (as @ [a]) = reducer call v s' a"
  by (simp add: reduceAll_append split: sum.splits)

lemma useFormStateV1_inv:
  assumes "useFormStateV1 call a inst = Inr (out, inst')"
  shows "\<exists>v s. unwrapV1 call a [] = Inr v
           \<and> applyUpdates call (formState inst) (pending inst) = Inr s
           \<and> fst out = effectiveValue s v \<and> formState inst' = s \<and> pending inst' = []"
  using assms
  by (auto simp: useFormStateV1_def Let_def split: sum.splits prod.splits)

lemma useFormStateV2_inv:
  assumes "useFormStateV2 call a inst = Inr (out, inst')"
  shows "\<exists>v s. unwrapV2 call a [] = Inr v
           \<and> reduceAll call v (state inst) (dispatched inst) = Inr s
           \<and> fst out = effectiveValue s v \<and> state inst' = s \<and> dispatched inst' = []"
  using assms
  by (auto simp: useFormStateV2_def Let_def split: sum.splits prod.splits)

lemma pending_setStateV1 [simp]:
  "pending (setStateV1 h value inst) = pending inst @ [SetStateUpdater value (captured h)]"
  "formState (setStateV1 h value inst) = formState inst"
  by (simp_all add: setStateV1_def)

lemma pending_resetV1 [simp]:
  "pending (resetV1 inst) = pending inst @ [ResetObject]"
  "formState (resetV1 inst) = formState inst"
  by (simp_all add: resetV1_def)

lemma dispatched_setStateV2 [simp]:
  "dispatched (setStateV2 value inst) = dispatched inst @ [SET_STATE value]"
  "state (setStateV2 value inst) = state inst"
  by (simp_all add: setStateV2_def)

lemma dispatched_resetV2 [simp]:
  "dispatched (resetV2 inst) = dispatched inst @ [RESET]"
  "state (resetV2 inst) = state inst"
  by (simp_all add: resetV2_def)

lemma callV1_queue [simp]:
  "pending (callV1 handles c inst) = pending inst @ [updateOf handles c]"
  "formState (callV1 handles c inst) = formState inst"
  by (cases handles; cases c; simp add: updateOf_def)+

lemma callV2_queue [simp]:
  "dispatched (callV2 c inst) = dispatched inst @ [actionOf c]"
  "state (callV2 c inst) = state inst"
  by (cases c; simp add: actionOf_def)+

lemma callsV1_queue [simp]:
  "pending (callsV1 handles cs inst) = pending inst @ map (updateOf handles) cs"
  "formState (callsV1 handles cs inst) = formState inst"
  by (induction cs arbitrary: inst) simp_all

lemma callsV2_queue [simp]:
  "dispatched (callsV2 cs inst) = dispatched inst @ map actionOf cs"
  "state (callsV2 cs inst) = state inst"
  by (induction cs arbitrary: inst) simp_all

subsection \<open>Results of renders\<close>

lemma rendered_simps [simp]:
  "rendered (Inl e) = Inl e"
  "rendered (Inr ((v, hs), inst)) = Inr v"
  by (simp_all add: rendered_def)

lemma effective_simps [simp]:
  "effective (Inl e) = Inl e"
  "effective (Inr out) = Inr (fst out)"
  by (simp_all add: effective_def)

lemma rendered_V1:
  assumes "unwrapV1 call a [] = Inr v"
  shows "rendered (useFormStateV1 call a inst)
           = (case applyUpdates call (formState inst) (pending inst) of
                Inl e \<Rightarrow> Inl e | Inr s \<Rightarrow> Inr (effectiveValue s v))"
  using assms by (simp add: useFormStateV1_def Let_def split: sum.splits prod.splits)

lemma rendered_V2:
  assumes "unwrapV2 call a [] = Inr v"
  shows "rendered (useFormStateV2 call a inst)
           = (case reduceAll call v (state inst) (dispatched inst) of
                Inl e \<Rightarrow> Inl e | Inr s \<Rightarrow> Inr (effectiveValue s v))"
  using assms by (simp add: useFormStateV2_def Let_def split: sum.splits prod.splits)

subsection \<open>Callback cells\<close>

lemma callV1_cells [simp]:
  "setStateCell (callV1 handles c inst) = setStateCell inst"
  "resetCell (callV1 handles c inst) = resetCell inst"
  "renders (callV1 handles c inst) = renders inst"
  by (cases handles; cases c; simp add: setStateV1_def resetV1_def)+

lemma callV2_cells [simp]:
  "setStateCell2 (callV2 c inst) = setStateCell2 inst"
  "resetCell2 (callV2 c inst) = resetCell2 inst"
  "renders2 (callV2 c inst) = renders2 inst"
  by (cases c; simp add: setStateV2_def resetV2_def)+

lemma cellsV1_call [simp]: "cellsV1 (callV1 handles c inst) = cellsV1 inst"
  by (simp add: cellsV1_def cong: option.case_cong)

lemma cellsV2_call [simp]: "cellsV2 (callV2 c inst) = cellsV2 inst"
  by (simp add: cellsV2_def cong: option.case_cong)

lemma useFormStateV1_cells:
  assumes "cellsV1 inst" and "useFormStateV1 call a inst = Inr ((e, h, r), inst')"
  shows "cellsV1 inst'"
    and "unwrapV1 call a [] = Inr (captured h)"
    and "setStateCell inst' = Some ([captured h], h)"
    and "resetCell inst' = Some ([], r)"
    and "\<And>d h0. setStateCell inst = Some (d, h0) \<Longrightarrow> (h = h0) = (captured h = captured h0)"
    and "\<And>d r0. resetCell inst = Some (d, r0) \<Longrightarrow> r = r0"
    and "resetCell inst = None \<Longrightarrow> r = ResetFn (renders inst)"
  using assms
  by (cases "setStateCell inst"; cases "resetCell inst";
      auto simp: useFormStateV1_def cellsV1_def useCallback_def Let_def
        split: sum.splits prod.splits if_splits)+

lemma useFormStateV2_cells:
  assumes "cellsV2 inst" and "useFormStateV2 call a inst = Inr ((e, h, r), inst')"
  shows "cellsV2 inst'"
    and "\<exists>d. setStateCell2 inst' = Some (d, h)"
    and "\<exists>d. resetCell2 inst' = Some (d, r)"
    and "\<And>d h0. setStateCell2 inst = Some (d, h0) \<Longrightarrow> h = h0"
    and "\<And>d r0. resetCell2 inst = Some (d, r0) \<Longrightarrow> r = r0"
    and "setStateCell2 inst = None \<Longrightarrow> h = SetStateV2 (renders2 inst)"
    and "resetCell2 inst = None \<Longrightarrow> r = ResetFn (renders2 inst)"
  using assms
  by (cases "setStateCell2 inst"; cases "resetCell2 inst";
      auto simp: useFormStateV2_def cellsV2_def useCallback_def Let_def
        split: sum.splits prod.splits if_splits)+

lemma cells_mount [simp]: "cellsV1 mountV1" "cellsV2 mountV2"
  by (simp_all add: cellsV1_def cellsV2_def mountV1_def mountV2_def)

subsection \<open>The concrete instances are reached by a first render\<close>

lemma demoInstV1_reached:
  "useFormStateV1 demoCall (Plain 1) mountV1
     = Inr ((Plain 1, SetStateV1 0 (Plain 1), ResetFn 0), demoInstV1)"
  by (simp add: useFormStateV1_def mountV1_def demoInstV1_def useCallback_def)

lemma demoInstV2_reached:
  "useFormStateV2 demoCall (Plain 1) mountV2
     = Inr ((Plain 1, SetStateV2 0, ResetFn 0), demoInstV2)"
  by (simp add: useFormStateV2_def mountV2_def demoInstV2_def useCallback_def)

section \<open>Tracking fidelity\<close>





section \<open>Override freeze\<close>







section \<open>Reset resumes tracking\<close>



section \<open>Faults\<close>

text \<open>The second version raises nothing of its own: a fault of one of its renders is a
  fault of a function that was called.\<close>

lemma unwrapV2_fault_origin:
  "unwrapV2 call x args = Inl e \<Longrightarrow> \<exists>fn args. call fn args = Inl e"
  by (cases x) auto

lemma reduceAll_fault_origin:
  "reduceAll call v s as = Inl e \<Longrightarrow> \<exists>fn args. call fn args = Inl e"
proof (induction as arbitrary: s)
  case Nil
  then show ?case by simp
next
  case (Cons a as)
  show ?case
  proof (cases "reducer call v s a")
    case (Inl e')
    with Cons.prems have e: "e' = e" by simp
    from Inl show ?thesis unfolding e
      by (cases a) (auto split: sum.splits dest: unwrapV2_fault_origin)
  next
    case (Inr s')
    with Cons.prems have "reduceAll call v s' as = Inl e" by simp
    then show ?thesis by (rule Cons.IH)
  qed
qed

lemma useFormStateV2_fault_origin:
  assumes "useFormStateV2 call a inst = Inl e"
  shows "\<exists>fn args. call fn args = Inl e"
proof (cases "unwrapV2 call a []")
  case (Inl e')
  with assms have "e' = e" by (simp add: useFormStateV2_def)
  with Inl show ?thesis using unwrapV2_fault_origin by fast
next
  case (Inr v)
  with assms have "reduceAll call v (state inst) (dispatched inst) = Inl e"
    by (auto simp: useFormStateV2_def Let_def split: sum.splits prod.splits)
  then show ?thesis by (rule reduceAll_fault_origin)
qed

lemma demoCall_no_TypeError: "demoCall fn args \<noteq> Inl TypeError"
  by (induction fn args rule: demoCall.induct) simp_all

text \<open>
  Claim C8 (error propagation), evaluated where the first version breaks it. The first
  version decides with \<^verbatim>\<open>instanceof Function\<close> what it calls.
  \<^item> Rendered with \<^verbatim>\<open>Object.create(Function.prototype)\<close>, which is no function, a fresh
    instance throws a \<^verbatim>\<open>TypeError\<close>, and so does the render that processes
    \<^verbatim>\<open>setValue\<close> of such a value. No function was supplied that could have thrown it: the
    fault is the hook's own. The second version returns the value.
  \<^item> Rendered with a function of another realm that throws, a fresh instance does not
    resolve the function at all and returns it as the effective value. The second version
    calls it and the fault propagates.
\<close>

theorem error_propagation_failing_input:
  "useFormStateV1 demoCall (Impostor 0) mountV1 = Inl TypeError
   \<and> rendered (useFormStateV1 demoCall (Plain 1)
         (setStateV1 (SetStateV1 0 (Plain 1)) (Impostor 0) demoInstV1)) = Inl TypeError
   \<and> (\<forall>fn args. demoCall fn args \<noteq> Inl TypeError)
   \<and> rendered (useFormStateV2 demoCall (Impostor 0) mountV2) = Inr (Impostor 0)
   \<and> rendered (useFormStateV2 demoCall (Plain 1) (setStateV2 (Impostor 0) demoInstV2))
       = Inr (Impostor 0)
   \<and> rendered (useFormStateV1 demoCall (CrossRealm Throw) mountV1) = Inr (CrossRealm Throw)
   \<and> useFormStateV2 demoCall (CrossRealm Throw) mountV2 = Inl (Thrown ''boom'')"
proof -
  have v1: "useFormStateV1 demoCall (Impostor 0) mountV1 = Inl TypeError"
    "rendered (useFormStateV1 demoCall (Plain 1)
         (setStateV1 (SetStateV1 0 (Plain 1)) (Impostor 0) demoInstV1)) = Inl TypeError"
    "rendered (useFormStateV1 demoCall (CrossRealm Throw) mountV1) = Inr (CrossRealm Throw)"
    by code_simp+
  have v2: "rendered (useFormStateV2 demoCall (Impostor 0) mountV2) = Inr (Impostor 0)"
    "rendered (useFormStateV2 demoCall (Plain 1) (setStateV2 (Impostor 0) demoInstV2))
       = Inr (Impostor 0)"
    "useFormStateV2 demoCall (CrossRealm Throw) mountV2 = Inl (Thrown ''boom'')"
    by code_simp+
  from v1 v2 demoCall_no_TypeError show ?thesis by blast
qed

section \<open>Function values are invoked, never stored as given\<close>

text \<open>
  Claim C10 (function values cannot be stored literally), evaluated where the first
  version breaks it. The first version dispatches on \<^verbatim>\<open>instanceof Function\<close>, not on
  callability. A fresh instance is rendered with a function of another realm that
  returns \<open>7\<close>; then \<^verbatim>\<open>setValue\<close> is called with the successor function of another realm and
  the instance is rendered with \<open>1\<close>. The first version invokes neither function: the two
  renders return the function objects themselves. The second version, which tests
  \<^verbatim>\<open>typeof\<close>, invokes both and returns \<open>7\<close> and \<open>2\<close>.
\<close>

theorem callable_is_invoked_failing_input:
  "map effective (runV1 demoCall mountV1 None
       [Render (CrossRealm (Const 7)), Call (SetValue (CrossRealm Inc)), Render (Plain 1)])
     = [Inr (CrossRealm (Const 7)), Inr (CrossRealm Inc)]
   \<and> map effective (runV2 demoCall mountV2 None
       [Render (CrossRealm (Const 7)), Call (SetValue (CrossRealm Inc)), Render (Plain 1)])
     = [Inr (Plain 7), Inr (Plain 2)]"
  by code_simp

section \<open>Batches of calls\<close>







section \<open>Transition discipline\<close>

lemma applyUpdates_tag:
  "applyUpdates call s us = Inr s' \<Longrightarrow>
   isChanged s' = (if us = [] then isChanged s else (\<exists>p c. last us = SetStateUpdater p c))"
proof (induction us arbitrary: s)
  case Nil
  then show ?case by simp
next
  case (Cons u us)
  from Cons.prems obtain t where t: "applyUpdate call u s = Inr t"
    and rest: "applyUpdates call t us = Inr s'"
    by (auto split: sum.splits)
  show ?case
  proof (cases "us = []")
    case True
    with t rest show ?thesis
      by (cases u) (auto simp: isChanged_def split: sum.splits)
  next
    case False
    with Cons.IH [OF rest] show ?thesis by simp
  qed
qed

lemma reduceAll_tag:
  "reduceAll call v s as = Inr s' \<Longrightarrow>
   isChanged s' = (if as = [] then isChanged s else (\<exists>p. last as = SET_STATE p))"
proof (induction as arbitrary: s)
  case Nil
  then show ?case by simp
next
  case (Cons a as)
  from Cons.prems obtain t where t: "reducer call v s a = Inr t"
    and rest: "reduceAll call v t as = Inr s'"
    by (auto split: sum.splits)
  show ?case
  proof (cases "as = []")
    case True
    with t rest show ?thesis
      by (cases a) (auto simp: isChanged_def split: sum.splits)
  next
    case False
    with Cons.IH [OF rest] show ?thesis by simp
  qed
qed

lemma last_updateOf:
  "cs \<noteq> [] \<Longrightarrow>
   (\<exists>p c. last (map (updateOf handles) cs) = SetStateUpdater p c) = (\<exists>p. last cs = SetValue p)"
  by (cases "last cs") (auto simp: last_map updateOf_def)

lemma last_actionOf:
  "cs \<noteq> [] \<Longrightarrow> (\<exists>p. last (map actionOf cs) = SET_STATE p) = (\<exists>p. last cs = SetValue p)"
  by (cases "last cs") (auto simp: last_map actionOf_def)

text \<open>
  Claim C7 (transition discipline), for both hooks.
  \<^item> A render with no call since the previous render leaves the stored state as it is.
  \<^item> One step of the state: from \<open>Unchanged\<close> to \<open>Changed\<close> only by the update of a
    \<^verbatim>\<open>setValue\<close> call, from \<open>Changed\<close> to \<open>Unchanged\<close> only by that of a \<^verbatim>\<open>reset\<close> call,
    and from \<open>Changed x\<close> to \<open>Changed y\<close> only by that of a \<^verbatim>\<open>setValue\<close> call whose
    payload, resolved against \<open>x\<close>, gives \<open>y\<close>.
  \<^item> Between two renders: when calls \<open>cs\<close> were made through the handles, the state after
    the second render is \<open>Changed\<close> exactly when the last call was \<^verbatim>\<open>setValue\<close>; with no call
    the tag is the one from before.
\<close>

theorem transition_discipline:
  "(useFormStateV1 call a inst1 = Inr (out1, inst1') \<and> pending inst1 = []
      \<longrightarrow> formState inst1' = formState inst1)
   \<and> (useFormStateV2 call a inst2 = Inr (out2, inst2') \<and> dispatched inst2 = []
      \<longrightarrow> state inst2' = state inst2)
   \<and> (applyUpdate call u s = Inr s' \<longrightarrow>
        (\<not> isChanged s \<and> isChanged s' \<longrightarrow> (\<exists>p c. u = SetStateUpdater p c))
        \<and> (isChanged s \<and> \<not> isChanged s' \<longrightarrow> u = ResetObject)
        \<and> (\<forall>x y. s = Changed x \<and> s' = Changed y
              \<longrightarrow> (\<exists>p c. u = SetStateUpdater p c \<and> unwrapV1 call p [x] = Inr y)))
   \<and> (reducer call v s act = Inr s' \<longrightarrow>
        (\<not> isChanged s \<and> isChanged s' \<longrightarrow> (\<exists>p. act = SET_STATE p))
        \<and> (isChanged s \<and> \<not> isChanged s' \<longrightarrow> act = RESET)
        \<and> (\<forall>x y. s = Changed x \<and> s' = Changed y
              \<longrightarrow> (\<exists>p. act = SET_STATE p \<and> unwrapV2 call p [x] = Inr y)))
   \<and> (useFormStateV1 call a (callsV1 handles cs inst1) = Inr (out1, inst1')
        \<and> pending inst1 = []
      \<longrightarrow> isChanged (formState inst1')
            = (if cs = [] then isChanged (formState inst1) else (\<exists>p. last cs = SetValue p)))
   \<and> (useFormStateV2 call a (callsV2 cs inst2) = Inr (out2, inst2')
        \<and> dispatched inst2 = []
      \<longrightarrow> isChanged (state inst2')
            = (if cs = [] then isChanged (state inst2) else (\<exists>p. last cs = SetValue p)))"
proof (intro conjI impI)
  assume "useFormStateV1 call a inst1 = Inr (out1, inst1') \<and> pending inst1 = []"
  then show "formState inst1' = formState inst1"
    using useFormStateV1_inv [of call a inst1 out1 inst1'] by auto
next
  assume "useFormStateV2 call a inst2 = Inr (out2, inst2') \<and> dispatched inst2 = []"
  then show "state inst2' = state inst2"
    using useFormStateV2_inv [of call a inst2 out2 inst2'] by auto
next
  assume "applyUpdate call u s = Inr s'" and "\<not> isChanged s \<and> isChanged s'"
  then show "\<exists>p c. u = SetStateUpdater p c"
    by (cases u) (auto simp: isChanged_def)
next
  assume "applyUpdate call u s = Inr s'" and "isChanged s \<and> \<not> isChanged s'"
  then show "u = ResetObject"
    by (cases u) (auto simp: isChanged_def split: sum.splits)
next
  assume "applyUpdate call u s = Inr s'"
  then show "\<forall>x y. s = Changed x \<and> s' = Changed y
              \<longrightarrow> (\<exists>p c. u = SetStateUpdater p c \<and> unwrapV1 call p [x] = Inr y)"
    by (cases u) (auto split: sum.splits)
next
  assume "reducer call v s act = Inr s'" and "\<not> isChanged s \<and> isChanged s'"
  then show "\<exists>p. act = SET_STATE p"
    by (cases act) (auto simp: isChanged_def)
next
  assume "reducer call v s act = Inr s'" and "isChanged s \<and> \<not> isChanged s'"
  then show "act = RESET"
    by (cases act) (auto simp: isChanged_def split: sum.splits)
next
  assume "reducer call v s act = Inr s'"
  then show "\<forall>x y. s = Changed x \<and> s' = Changed y
              \<longrightarrow> (\<exists>p. act = SET_STATE p \<and> unwrapV2 call p [x] = Inr y)"
    by (cases act) (auto split: sum.splits)
next
  assume h: "useFormStateV1 call a (callsV1 handles cs inst1) = Inr (out1, inst1')
        \<and> pending inst1 = []"
  then have "useFormStateV1 call a (callsV1 handles cs inst1) = Inr (out1, inst1')" ..
  from useFormStateV1_inv [OF this] h
  have "applyUpdates call (formState inst1) (map (updateOf handles) cs) = Inr (formState inst1')"
    by auto
  from applyUpdates_tag [OF this]
  show "isChanged (formState inst1')
            = (if cs = [] then isChanged (formState inst1) else (\<exists>p. last cs = SetValue p))"
    by (simp add: last_updateOf)
next
  assume h: "useFormStateV2 call a (callsV2 cs inst2) = Inr (out2, inst2')
        \<and> dispatched inst2 = []"
  then have "useFormStateV2 call a (callsV2 cs inst2) = Inr (out2, inst2')" ..
  from useFormStateV2_inv [OF this] h obtain v where
    "reduceAll call v (state inst2) (map actionOf cs) = Inr (state inst2')"
    by auto
  from reduceAll_tag [OF this]
  show "isChanged (state inst2')
            = (if cs = [] then isChanged (state inst2) else (\<exists>p. last cs = SetValue p))"
    by (simp add: last_actionOf)
qed

theorem transition_discipline_witness:
  "useFormStateV1 demoCall (Plain 10) (demoInstV1\<lparr>formState := Changed (Plain 5)\<rparr>)
     = Inr ((Plain 5, SetStateV1 1 (Plain 10), ResetFn 0),
            \<lparr>formState = Changed (Plain 5), pending = [],
             setStateCell = Some ([Plain 10], SetStateV1 1 (Plain 10)),
             resetCell = Some ([], ResetFn 0), renders = 2\<rparr>)
   \<and> useFormStateV2 demoCall (Plain 10) (demoInstV2\<lparr>state := Changed (Plain 5)\<rparr>)
     = Inr ((Plain 5, SetStateV2 0, ResetFn 0),
            \<lparr>state = Changed (Plain 5), dispatched = [],
             setStateCell2 = Some ([Dispatch], SetStateV2 0),
             resetCell2 = Some ([Dispatch], ResetFn 0), renders2 = 2\<rparr>)
   \<and> applyUpdate demoCall (SetStateUpdater (Callable Inc) (Plain 1)) (Changed (Plain 5))
       = Inr (Changed (Plain 6))
   \<and> reducer demoCall (Plain 1) (Changed (Plain 5)) (SET_STATE (Callable Inc))
       = Inr (Changed (Plain 6))
   \<and> (\<exists>p c. SetStateUpdater (Callable Inc) (Plain 1) = SetStateUpdater p c
          \<and> unwrapV1 demoCall p [Plain 5] = Inr (Plain 6))
   \<and> (\<exists>p. SET_STATE (Callable Inc) = SET_STATE p
          \<and> unwrapV2 demoCall p [Plain 5] = Inr (Plain 6))
   \<and> applyUpdate demoCall (SetStateUpdater (Plain 5) (Plain 1)) Unchanged
       = Inr (Changed (Plain 5))
   \<and> reducer demoCall (Plain 1) Unchanged (SET_STATE (Plain 5)) = Inr (Changed (Plain 5))
   \<and> useFormStateV1 demoCall (Plain 10)
        (callsV1 (SetStateV1 0 (Plain 1), ResetFn 0) [SetValue (Plain 5)] demoInstV1)
     = Inr ((Plain 5, SetStateV1 1 (Plain 10), ResetFn 0),
            \<lparr>formState = Changed (Plain 5), pending = [],
             setStateCell = Some ([Plain 10], SetStateV1 1 (Plain 10)),
             resetCell = Some ([], ResetFn 0), renders = 2\<rparr>)
   \<and> useFormStateV2 demoCall (Plain 10) (callsV2 [SetValue (Plain 5)] demoInstV2)
     = Inr ((Plain 5, SetStateV2 0, ResetFn 0),
            \<lparr>state = Changed (Plain 5), dispatched = [],
             setStateCell2 = Some ([Dispatch], SetStateV2 0),
             resetCell2 = Some ([Dispatch], ResetFn 0), renders2 = 2\<rparr>)
   \<and> (\<exists>p. last [SetValue (Plain 5) :: (int, demoFn) jsval call] = SetValue p)
   \<and> applyUpdate demoCall ResetObject (Changed (Plain 5)) = Inr Unchanged
   \<and> reducer demoCall (Plain 1) (Changed (Plain 5)) RESET = Inr Unchanged
   \<and> useFormStateV1 demoCall (Plain 10)
        (callsV1 (SetStateV1 0 (Plain 1), ResetFn 0) [SetValue (Plain 7), Reset]
           (demoInstV1\<lparr>formState := Changed (Plain 5)\<rparr>))
     = Inr ((Plain 10, SetStateV1 1 (Plain 10), ResetFn 0),
            \<lparr>formState = Unchanged, pending = [],
             setStateCell = Some ([Plain 10], SetStateV1 1 (Plain 10)),
             resetCell = Some ([], ResetFn 0), renders = 2\<rparr>)
   \<and> useFormStateV2 demoCall (Plain 10)
        (callsV2 [SetValue (Plain 7), Reset] (demoInstV2\<lparr>state := Changed (Plain 5)\<rparr>))
     = Inr ((Plain 10, SetStateV2 0, ResetFn 0),
            \<lparr>state = Unchanged, dispatched = [],
             setStateCell2 = Some ([Dispatch], SetStateV2 0),
             resetCell2 = Some ([Dispatch], ResetFn 0), renders2 = 2\<rparr>)
   \<and> \<not> (\<exists>p. last [SetValue (Plain 7), Reset :: (int, demoFn) jsval call] = SetValue p)"
proof -
  let ?hs = "(SetStateV1 0 (Plain 1) :: (int, demoFn) jsval SetStateV1, ResetFn 0)"
  let ?i1 = "demoInstV1\<lparr>formState := Changed (Plain 5)\<rparr>"
  let ?i2 = "demoInstV2\<lparr>state := Changed (Plain 5)\<rparr>"
  let ?o1 = "(Plain 5 :: (int, demoFn) jsval, SetStateV1 1 (Plain 10 :: (int, demoFn) jsval),
              ResetFn 0)"
  let ?o2 = "(Plain 5 :: (int, demoFn) jsval, SetStateV2 0, ResetFn 0)"
  let ?r1 = "\<lparr>formState = Changed (Plain 5 :: (int, demoFn) jsval), pending = [],
             setStateCell = Some ([Plain 10], SetStateV1 1 (Plain 10)),
             resetCell = Some ([], ResetFn 0), renders = 2\<rparr>"
  let ?r2 = "\<lparr>state = Changed (Plain 5 :: (int, demoFn) jsval), dispatched = [],
             setStateCell2 = Some ([Dispatch], SetStateV2 0),
             resetCell2 = Some ([Dispatch], ResetFn 0), renders2 = 2\<rparr>"
  let ?p1 = "(Plain 10 :: (int, demoFn) jsval, SetStateV1 1 (Plain 10 :: (int, demoFn) jsval),
              ResetFn 0)"
  let ?p2 = "(Plain 10 :: (int, demoFn) jsval, SetStateV2 0, ResetFn 0)"
  let ?u1 = "\<lparr>formState = (Unchanged :: (int, demoFn) jsval FormState), pending = [],
             setStateCell = Some ([Plain 10], SetStateV1 1 (Plain 10)),
             resetCell = Some ([], ResetFn 0), renders = 2\<rparr>"
  let ?u2 = "\<lparr>state = (Unchanged :: (int, demoFn) jsval FormState), dispatched = [],
             setStateCell2 = Some ([Dispatch], SetStateV2 0),
             resetCell2 = Some ([Dispatch], ResetFn 0), renders2 = 2\<rparr>"
  have evs: "useFormStateV1 demoCall (Plain 10) ?i1 = Inr (?o1, ?r1)"
    "useFormStateV2 demoCall (Plain 10) ?i2 = Inr (?o2, ?r2)"
    "useFormStateV1 demoCall (Plain 10) (callsV1 ?hs [SetValue (Plain 5)] demoInstV1)
       = Inr (?o1, ?r1)"
    "useFormStateV2 demoCall (Plain 10) (callsV2 [SetValue (Plain 5)] demoInstV2)
       = Inr (?o2, ?r2)"
    "useFormStateV1 demoCall (Plain 10) (callsV1 ?hs [SetValue (Plain 7), Reset] ?i1)
       = Inr (?p1, ?u1)"
    "useFormStateV2 demoCall (Plain 10) (callsV2 [SetValue (Plain 7), Reset] ?i2)
       = Inr (?p2, ?u2)"
    by (simp_all add: useFormStateV1_def useFormStateV2_def setStateV1_def setStateV2_def
        resetV1_def resetV2_def demoInstV1_def demoInstV2_def useCallback_def)
  have emp: "pending ?i1 = []" "dispatched ?i2 = []" "pending demoInstV1 = []"
    "dispatched demoInstV2 = []"
    by (simp_all add: demoInstV1_def demoInstV2_def)
  have A: "(\<exists>p c. SetStateUpdater (Callable Inc) (Plain 1) = SetStateUpdater p c
          \<and> unwrapV1 demoCall p [Plain 5] = Inr (Plain 6))
     \<and> (\<exists>p. SET_STATE (Callable Inc) = SET_STATE p
          \<and> unwrapV2 demoCall p [Plain 5] = Inr (Plain 6))
     \<and> formState ?r1 = formState ?i1 \<and> state ?r2 = state ?i2"
    using transition_discipline [where call = demoCall and a = "Plain 10"
        and ?inst1.0 = ?i1 and ?out1.0 = ?o1 and ?inst1' = ?r1
        and ?inst2.0 = ?i2 and ?out2.0 = ?o2 and ?inst2' = ?r2
        and u = "SetStateUpdater (Callable Inc) (Plain 1)" and s = "Changed (Plain 5)"
        and s' = "Changed (Plain 6)" and v = "Plain 1" and act = "SET_STATE (Callable Inc)"
        and handles = ?hs and cs = "[]"] evs emp
    by simp
  have B: "(\<exists>p. last [SetValue (Plain 5) :: (int, demoFn) jsval call] = SetValue p)
     \<and> isChanged (formState ?r1) \<and> isChanged (state ?r2)"
    using transition_discipline [where call = demoCall and a = "Plain 10"
        and ?inst1.0 = demoInstV1 and ?out1.0 = ?o1 and ?inst1' = ?r1
        and ?inst2.0 = demoInstV2 and ?out2.0 = ?o2 and ?inst2' = ?r2
        and u = "SetStateUpdater (Plain 5) (Plain 1)" and s = Unchanged
        and s' = "Changed (Plain 5)" and v = "Plain 1" and act = "SET_STATE (Plain 5)"
        and handles = ?hs and cs = "[SetValue (Plain 5)]"] evs emp
    by simp
  have C: "\<not> (\<exists>p. last [SetValue (Plain 7), Reset :: (int, demoFn) jsval call] = SetValue p)
     \<and> \<not> isChanged (formState ?u1) \<and> \<not> isChanged (state ?u2)"
    using transition_discipline [where call = demoCall and a = "Plain 10"
        and ?inst1.0 = ?i1 and ?out1.0 = ?p1 and ?inst1' = ?u1
        and ?inst2.0 = ?i2 and ?out2.0 = ?p2 and ?inst2' = ?u2
        and u = ResetObject and s = "Changed (Plain 5)"
        and s' = Unchanged and v = "Plain 1" and act = RESET
        and handles = ?hs and cs = "[SetValue (Plain 7), Reset]"] evs emp
    by simp
  have steps: "applyUpdate demoCall (SetStateUpdater (Callable Inc) (Plain 1)) (Changed (Plain 5))
       = Inr (Changed (Plain 6))"
    "reducer demoCall (Plain 1) (Changed (Plain 5)) (SET_STATE (Callable Inc))
       = Inr (Changed (Plain 6))"
    "applyUpdate demoCall (SetStateUpdater (Plain 5) (Plain 1)) Unchanged
       = Inr (Changed (Plain 5))"
    "reducer demoCall (Plain 1) Unchanged (SET_STATE (Plain 5)) = Inr (Changed (Plain 5))"
    "applyUpdate demoCall ResetObject (Changed (Plain 5)) = Inr Unchanged"
    "reducer demoCall (Plain 1) (Changed (Plain 5)) RESET = Inr Unchanged"
    by simp_all
  from evs steps A B C show ?thesis by blast
qed

section \<open>Identity of the handles\<close>

lemma stable_runV2:
  assumes "cellsV2 inst"
    and "case setStateCell2 inst of None \<Rightarrow> hS = SetStateV2 (renders2 inst)
           | Some (d, h) \<Rightarrow> h = hS"
    and "case resetCell2 inst of None \<Rightarrow> rS = ResetFn (renders2 inst)
           | Some (d, r) \<Rightarrow> r = rS"
    and "Inr out \<in> set (runV2 call inst held evs)"
  shows "snd out = (hS, rS)"
  using assms
proof (induction evs arbitrary: inst held)
  case Nil
  then show ?case by simp
next
  case (Cons ev evs)
  show ?case
  proof (cases ev)
    case (Call c)
    with Cons.prems(4) have "Inr out \<in> set (runV2 call inst held evs)
        \<or> Inr out \<in> set (runV2 call (callV2 c inst) held evs)"
      by (auto split: option.splits)
    then show ?thesis
    proof
      assume "Inr out \<in> set (runV2 call inst held evs)"
      from Cons.IH [OF Cons.prems(1-3) this] show ?thesis .
    next
      assume m: "Inr out \<in> set (runV2 call (callV2 c inst) held evs)"
      show ?thesis
        by (rule Cons.IH [OF _ _ _ m]) (use Cons.prems(1-3) in \<open>simp_all cong: option.case_cong\<close>)
    qed
  next
    case (Render a)
    show ?thesis
    proof (cases "useFormStateV2 call a inst")
      case (Inl e)
      with Cons.prems(4) Render show ?thesis by simp
    next
      case (Inr p)
      obtain e h r inst' where p: "p = ((e, h, r), inst')" by (cases p) auto
      note step = Inr [unfolded p]
      from useFormStateV2_cells [OF Cons.prems(1) step] Cons.prems(2,3)
      have hr: "h = hS" "r = rS"
        by (auto split: option.splits)
      from useFormStateV2_cells(1-3) [OF Cons.prems(1) step] hr
      have inv: "cellsV2 inst'"
        "case setStateCell2 inst' of None \<Rightarrow> hS = SetStateV2 (renders2 inst')
           | Some (d, h) \<Rightarrow> h = hS"
        "case resetCell2 inst' of None \<Rightarrow> rS = ResetFn (renders2 inst')
           | Some (d, r) \<Rightarrow> r = rS"
        by auto
      from Cons.prems(4) Render step p
      consider "out = (e, h, r)" | "Inr out \<in> set (runV2 call inst' (Some (h, r)) evs)"
        by auto
      then show ?thesis
      proof cases
        case 1
        with hr show ?thesis by simp
      next
        case 2
        from Cons.IH [OF inv 2] show ?thesis .
      qed
    qed
  qed
qed

lemma stable_reset_runV1:
  assumes "cellsV1 inst"
    and "case resetCell inst of None \<Rightarrow> rS = ResetFn (renders inst)
           | Some (d, r) \<Rightarrow> r = rS"
    and "Inr out \<in> set (runV1 call inst held evs)"
  shows "snd (snd out) = rS"
  using assms
proof (induction evs arbitrary: inst held)
  case Nil
  then show ?case by simp
next
  case (Cons ev evs)
  show ?case
  proof (cases ev)
    case (Call c)
    with Cons.prems(3) have "Inr out \<in> set (runV1 call inst held evs)
        \<or> (\<exists>hs. Inr out \<in> set (runV1 call (callV1 hs c inst) held evs))"
      by (auto split: option.splits)
    then show ?thesis
    proof
      assume "Inr out \<in> set (runV1 call inst held evs)"
      from Cons.IH [OF Cons.prems(1,2) this] show ?thesis .
    next
      assume "\<exists>hs. Inr out \<in> set (runV1 call (callV1 hs c inst) held evs)"
      then obtain hs where m: "Inr out \<in> set (runV1 call (callV1 hs c inst) held evs)" ..
      show ?thesis
        by (rule Cons.IH [OF _ _ m]) (use Cons.prems(1,2) in \<open>simp_all cong: option.case_cong\<close>)
    qed
  next
    case (Render a)
    show ?thesis
    proof (cases "useFormStateV1 call a inst")
      case (Inl e)
      with Cons.prems(3) Render show ?thesis by simp
    next
      case (Inr p)
      obtain e h r inst' where p: "p = ((e, h, r), inst')" by (cases p) auto
      note step = Inr [unfolded p]
      from useFormStateV1_cells(6,7) [OF Cons.prems(1) step] Cons.prems(2)
      have hr: "r = rS"
        by (auto split: option.splits)
      from useFormStateV1_cells(1,4) [OF Cons.prems(1) step] hr
      have inv: "cellsV1 inst'"
        "case resetCell inst' of None \<Rightarrow> rS = ResetFn (renders inst')
           | Some (d, r) \<Rightarrow> r = rS"
        by auto
      from Cons.prems(3) Render step p
      consider "out = (e, h, r)" | "Inr out \<in> set (runV1 call inst' (Some (h, r)) evs)"
        by auto
      then show ?thesis
      proof cases
        case 1
        with hr show ?thesis by simp
      next
        case 2
        from Cons.IH [OF inv 2] show ?thesis .
      qed
    qed
  qed
qed

lemma captured_runV1:
  assumes "cellsV1 inst"
    and "i < length (runV1 call inst held evs)"
    and "runV1 call inst held evs ! i = Inr (e, h, r)"
  shows "unwrapV1 call (renderArgs evs ! i) [] = Inr (captured h)"
  using assms
proof (induction evs arbitrary: inst held i)
  case Nil
  then show ?case by simp
next
  case (Cons ev evs)
  show ?case
  proof (cases ev)
    case (Call c)
    show ?thesis
    proof (cases held)
      case None
      with Cons.prems Call show ?thesis using Cons.IH [where inst = inst and held = held and i = i] by simp
    next
      case (Some hs)
      with Cons.prems Call show ?thesis using Cons.IH [where inst = "callV1 hs c inst" and held = held and i = i] by simp
    qed
  next
    case (Render a)
    show ?thesis
    proof (cases "useFormStateV1 call a inst")
      case (Inl x)
      with Cons.prems Render show ?thesis by simp
    next
      case (Inr p)
      obtain e0 h0 r0 inst' where p: "p = ((e0, h0, r0), inst')" by (cases p) auto
      note step = Inr [unfolded p]
      show ?thesis
      proof (cases i)
        case 0
        with Cons.prems(3) Render step have "h0 = h" by simp
        with useFormStateV1_cells(2) [OF Cons.prems(1) step] Render 0 show ?thesis by simp
      next
        case (Suc j)
        with Cons.prems(2,3) Render step
        have "j < length (runV1 call inst' (Some (h0, r0)) evs)"
          "runV1 call inst' (Some (h0, r0)) evs ! j = Inr (e, h, r)"
          by simp_all
        from Cons.IH [OF useFormStateV1_cells(1) [OF Cons.prems(1) step] this]
        show ?thesis using Render Suc by simp
      qed
    qed
  qed
qed

lemma next_handle_runV1:
  assumes "cellsV1 inst"
    and "setStateCell inst = Some (d, h1)"
    and "0 < length (runV1 call inst held evs)"
    and "runV1 call inst held evs ! 0 = Inr (e2, h2, r2)"
  shows "(h2 = h1) = (captured h2 = captured h1)"
  using assms
proof (induction evs arbitrary: inst held)
  case Nil
  then show ?case by simp
next
  case (Cons ev evs)
  show ?case
  proof (cases ev)
    case (Call c)
    show ?thesis
    proof (cases held)
      case None
      with Cons.prems Call show ?thesis using Cons.IH [where inst = inst and held = held] by simp
    next
      case (Some hs)
      with Cons.prems Call show ?thesis using Cons.IH [where inst = "callV1 hs c inst" and held = held] by simp
    qed
  next
    case (Render a)
    show ?thesis
    proof (cases "useFormStateV1 call a inst")
      case (Inl x)
      with Cons.prems Render show ?thesis by simp
    next
      case (Inr p)
      obtain e0 h0 r0 inst' where p: "p = ((e0, h0, r0), inst')" by (cases p) auto
      note step = Inr [unfolded p]
      with Cons.prems(4) Render have "h0 = h2" by simp
      with useFormStateV1_cells(5) [OF Cons.prems(1) step Cons.prems(2)] show ?thesis by simp
    qed
  qed
qed

lemma adjacent_handles_runV1:
  assumes "cellsV1 inst"
    and "Suc i < length (runV1 call inst held evs)"
    and "runV1 call inst held evs ! i = Inr (e1, h1, r1)"
    and "runV1 call inst held evs ! Suc i = Inr (e2, h2, r2)"
  shows "(h2 = h1) = (captured h2 = captured h1)"
  using assms
proof (induction evs arbitrary: inst held i)
  case Nil
  then show ?case by simp
next
  case (Cons ev evs)
  show ?case
  proof (cases ev)
    case (Call c)
    show ?thesis
    proof (cases held)
      case None
      with Cons.prems Call show ?thesis using Cons.IH [where inst = inst and held = held and i = i] by simp
    next
      case (Some hs)
      with Cons.prems Call show ?thesis using Cons.IH [where inst = "callV1 hs c inst" and held = held and i = i] by simp
    qed
  next
    case (Render a)
    show ?thesis
    proof (cases "useFormStateV1 call a inst")
      case (Inl x)
      with Cons.prems Render show ?thesis by simp
    next
      case (Inr p)
      obtain e0 h0 r0 inst' where p: "p = ((e0, h0, r0), inst')" by (cases p) auto
      note step = Inr [unfolded p]
      note inv = useFormStateV1_cells(1) [OF Cons.prems(1) step]
      show ?thesis
      proof (cases i)
        case 0
        with Cons.prems(2-4) Render step
        have "h0 = h1" "0 < length (runV1 call inst' (Some (h0, r0)) evs)"
          "runV1 call inst' (Some (h0, r0)) evs ! 0 = Inr (e2, h2, r2)"
          by simp_all
        with next_handle_runV1 [OF inv useFormStateV1_cells(3) [OF Cons.prems(1) step]]
        show ?thesis by blast
      next
        case (Suc j)
        with Cons.prems(2-4) Render step
        have "Suc j < length (runV1 call inst' (Some (h0, r0)) evs)"
          "runV1 call inst' (Some (h0, r0)) evs ! j = Inr (e1, h1, r1)"
          "runV1 call inst' (Some (h0, r0)) evs ! Suc j = Inr (e2, h2, r2)"
          by simp_all
        from Cons.IH [OF inv this] show ?thesis .
      qed
    qed
  qed
qed

text \<open>
  Claim C5 (handle stability) as stated fails for the \<open>useState\<close>-based hook: its
  \<^verbatim>\<open>setState\<close> is memoised on \<^verbatim>\<open>[unwrappedInitialState]\<close>, so a render whose argument
  resolves to a new value returns a new function object. Two renders of a fresh instance
  with the arguments \<open>1\<close> and \<open>2\<close> return different \<^verbatim>\<open>setState\<close> handles.
\<close>

theorem handle_stability_counterexample:
  "runV1 demoCall mountV1 None [Render (Plain 1), Render (Plain 2)]
     = [Inr (Plain 1, SetStateV1 0 (Plain 1), ResetFn 0),
        Inr (Plain 2, SetStateV1 1 (Plain 2), ResetFn 0)]
   \<and> SetStateV1 0 (Plain 1) \<noteq> (SetStateV1 1 (Plain 2) :: (int, demoFn) jsval SetStateV1)"
  by (simp add: useFormStateV1_def mountV1_def useCallback_def)

text \<open>
  Claim C5, amended. In every execution that starts with a fresh instance:
  \<^item> every render of the \<open>useReducer\<close>-based hook returns the same \<^verbatim>\<open>setState\<close> and the
    same \<^verbatim>\<open>reset\<close>;
  \<^item> every render of the \<open>useState\<close>-based hook returns the same \<^verbatim>\<open>reset\<close>;
  \<^item> the \<^verbatim>\<open>setState\<close> returned by a render of the \<open>useState\<close>-based hook closes over
    the value that the argument of this render resolves to, and it is the handle returned
    by the render before exactly when the two renders resolved the same value.
\<close>

theorem handle_identity:
  "(\<forall>out. Inr out \<in> set (runV2 call mountV2 None evs)
        \<longrightarrow> snd out = (SetStateV2 0, ResetFn 0))
   \<and> (\<forall>out. Inr out \<in> set (runV1 call mountV1 None evs) \<longrightarrow> snd (snd out) = ResetFn 0)
   \<and> (\<forall>i e h r. i < length (runV1 call mountV1 None evs)
          \<and> runV1 call mountV1 None evs ! i = Inr (e, h, r)
        \<longrightarrow> unwrapV1 call (renderArgs evs ! i) [] = Inr (captured h))
   \<and> (\<forall>i e1 h1 r1 e2 h2 r2. Suc i < length (runV1 call mountV1 None evs)
          \<and> runV1 call mountV1 None evs ! i = Inr (e1, h1, r1)
          \<and> runV1 call mountV1 None evs ! Suc i = Inr (e2, h2, r2)
        \<longrightarrow> (h2 = h1) = (captured h2 = captured h1))"
proof (intro conjI allI impI)
  fix out
  assume "Inr out \<in> set (runV2 call mountV2 None evs)"
  then show "snd out = (SetStateV2 0, ResetFn 0)"
    by (rule stable_runV2 [rotated 3]) (simp_all add: cellsV2_def mountV2_def)
next
  fix out
  assume "Inr out \<in> set (runV1 call mountV1 None evs)"
  then show "snd (snd out) = ResetFn 0"
    by (rule stable_reset_runV1 [rotated 2]) (simp_all add: cellsV1_def mountV1_def)
next
  fix i e h r
  assume "i < length (runV1 call mountV1 None evs)
          \<and> runV1 call mountV1 None evs ! i = Inr (e, h, r)"
  then show "unwrapV1 call (renderArgs evs ! i) [] = Inr (captured h)"
    using captured_runV1 [of mountV1 i call None evs e h r] by simp
next
  fix i e1 h1 r1 e2 h2 r2
  assume "Suc i < length (runV1 call mountV1 None evs)
          \<and> runV1 call mountV1 None evs ! i = Inr (e1, h1, r1)
          \<and> runV1 call mountV1 None evs ! Suc i = Inr (e2, h2, r2)"
  then show "(h2 = h1) = (captured h2 = captured h1)"
    using adjacent_handles_runV1 [of mountV1 i call None evs e1 h1 r1 e2 h2 r2] by simp
qed

theorem handle_identity_witness:
  "runV2 demoCall mountV2 None
      [Render (Plain 1), Call (SetValue (Plain 5)), Render (Plain 1), Render (Plain 2)]
     = [Inr (Plain 1, SetStateV2 0, ResetFn 0), Inr (Plain 5, SetStateV2 0, ResetFn 0),
        Inr (Plain 5, SetStateV2 0, ResetFn 0)]
   \<and> runV1 demoCall mountV1 None
      [Render (Plain 1), Call (SetValue (Plain 5)), Render (Plain 1), Render (Plain 2)]
     = [Inr (Plain 1, SetStateV1 0 (Plain 1), ResetFn 0),
        Inr (Plain 5, SetStateV1 0 (Plain 1), ResetFn 0),
        Inr (Plain 5, SetStateV1 2 (Plain 2), ResetFn 0)]
   \<and> snd (Plain 5 :: (int, demoFn) jsval, SetStateV2 0, ResetFn 0) = (SetStateV2 0, ResetFn 0)
   \<and> snd (snd (Plain 5 :: (int, demoFn) jsval,
               SetStateV1 2 (Plain 2) :: (int, demoFn) jsval SetStateV1, ResetFn 0)) = ResetFn 0
   \<and> unwrapV1 demoCall (renderArgs
        [Render (Plain 1), Call (SetValue (Plain 5)), Render (Plain 1), Render (Plain 2)] ! 2) []
       = Inr (captured (SetStateV1 2 (Plain 2)))
   \<and> ((SetStateV1 0 (Plain 1) :: (int, demoFn) jsval SetStateV1) = SetStateV1 0 (Plain 1))
       = (captured (SetStateV1 0 (Plain 1) :: (int, demoFn) jsval SetStateV1)
           = captured (SetStateV1 0 (Plain 1) :: (int, demoFn) jsval SetStateV1))
   \<and> ((SetStateV1 2 (Plain 2) :: (int, demoFn) jsval SetStateV1) = SetStateV1 0 (Plain 1))
       = (captured (SetStateV1 2 (Plain 2) :: (int, demoFn) jsval SetStateV1)
           = captured (SetStateV1 0 (Plain 1) :: (int, demoFn) jsval SetStateV1))"
proof -
  let ?evs = "[Render (Plain 1), Call (SetValue (Plain 5)), Render (Plain 1), Render (Plain 2)]
                :: (int, demoFn) jsval event list"
  have r2: "runV2 demoCall mountV2 None ?evs
     = [Inr (Plain 1, SetStateV2 0, ResetFn 0), Inr (Plain 5, SetStateV2 0, ResetFn 0),
        Inr (Plain 5, SetStateV2 0, ResetFn 0)]"
    by code_simp
  have r1: "runV1 demoCall mountV1 None ?evs
     = [Inr (Plain 1, SetStateV1 0 (Plain 1), ResetFn 0),
        Inr (Plain 5, SetStateV1 0 (Plain 1), ResetFn 0),
        Inr (Plain 5, SetStateV1 2 (Plain 2), ResetFn 0)]"
    by code_simp
  note t = handle_identity [of demoCall ?evs]
  from t r2 have a: "snd (Plain 5 :: (int, demoFn) jsval, SetStateV2 0, ResetFn 0)
      = (SetStateV2 0, ResetFn 0)"
    by simp
  from t r1 have b: "snd (snd (Plain 5 :: (int, demoFn) jsval,
               SetStateV1 2 (Plain 2) :: (int, demoFn) jsval SetStateV1, ResetFn 0)) = ResetFn 0"
    by simp
  from t have "2 < length (runV1 demoCall mountV1 None ?evs)
          \<and> runV1 demoCall mountV1 None ?evs ! 2 = Inr (Plain 5, SetStateV1 2 (Plain 2), ResetFn 0)
        \<longrightarrow> unwrapV1 demoCall (renderArgs ?evs ! 2) [] = Inr (captured (SetStateV1 2 (Plain 2)))"
    by blast
  with r1 have c: "unwrapV1 demoCall (renderArgs ?evs ! 2) []
      = Inr (captured (SetStateV1 2 (Plain 2)))"
    by simp
  from t have "Suc 0 < length (runV1 demoCall mountV1 None ?evs)
          \<and> runV1 demoCall mountV1 None ?evs ! 0 = Inr (Plain 1, SetStateV1 0 (Plain 1), ResetFn 0)
          \<and> runV1 demoCall mountV1 None ?evs ! Suc 0
              = Inr (Plain 5, SetStateV1 0 (Plain 1), ResetFn 0)
        \<longrightarrow> ((SetStateV1 0 (Plain 1) :: (int, demoFn) jsval SetStateV1) = SetStateV1 0 (Plain 1))
       = (captured (SetStateV1 0 (Plain 1) :: (int, demoFn) jsval SetStateV1)
           = captured (SetStateV1 0 (Plain 1) :: (int, demoFn) jsval SetStateV1))"
    by blast
  with r1 have d: "((SetStateV1 0 (Plain 1) :: (int, demoFn) jsval SetStateV1)
        = SetStateV1 0 (Plain 1))
       = (captured (SetStateV1 0 (Plain 1) :: (int, demoFn) jsval SetStateV1)
           = captured (SetStateV1 0 (Plain 1) :: (int, demoFn) jsval SetStateV1))"
    by simp
  from t have "Suc 1 < length (runV1 demoCall mountV1 None ?evs)
          \<and> runV1 demoCall mountV1 None ?evs ! 1 = Inr (Plain 5, SetStateV1 0 (Plain 1), ResetFn 0)
          \<and> runV1 demoCall mountV1 None ?evs ! Suc 1
              = Inr (Plain 5, SetStateV1 2 (Plain 2), ResetFn 0)
        \<longrightarrow> ((SetStateV1 2 (Plain 2) :: (int, demoFn) jsval SetStateV1) = SetStateV1 0 (Plain 1))
       = (captured (SetStateV1 2 (Plain 2) :: (int, demoFn) jsval SetStateV1)
           = captured (SetStateV1 0 (Plain 1) :: (int, demoFn) jsval SetStateV1))"
    by blast
  with r1 have e: "((SetStateV1 2 (Plain 2) :: (int, demoFn) jsval SetStateV1)
        = SetStateV1 0 (Plain 1))
       = (captured (SetStateV1 2 (Plain 2) :: (int, demoFn) jsval SetStateV1)
           = captured (SetStateV1 0 (Plain 1) :: (int, demoFn) jsval SetStateV1))"
    by simp
  from r1 r2 a b c d e show ?thesis by blast
qed

section \<open>Functional updaters\<close>

text \<open>
  Claim C3 (functional updater correctness) as stated gives one rule for both hooks, and
  it fails for the \<open>useState\<close>-based one. A fresh instance is rendered with \<open>1\<close>,
  \<^verbatim>\<open>setValue\<close> is called with the successor function, and the next render has the argument
  \<open>10\<close>. When that render processes the call the state is \<open>Unchanged\<close> and the external
  value is \<open>10\<close>, so the claim asks for \<open>11\<close>, which the \<open>useReducer\<close>-based hook
  returns; the updater of the \<open>useState\<close>-based hook closed over the \<open>1\<close> of the first
  render, and the render returns \<open>2\<close>.
\<close>

theorem functional_updater_counterexample:
  "map effective (runV1 demoCall mountV1 None
       [Render (Plain 1), Call (SetValue (Callable Inc)), Render (Plain 10)])
     = [Inr (Plain 1), Inr (Plain 2)]
   \<and> demoCall Inc [effectiveValue Unchanged (Plain 10)] = Inr (Plain 11)
   \<and> map effective (runV2 demoCall mountV2 None
       [Render (Plain 1), Call (SetValue (Callable Inc)), Render (Plain 10)])
     = [Inr (Plain 1), Inr (Plain 11)]"
  by code_simp

text \<open>
  Claim C3, amended. \<^verbatim>\<open>setValue(f)\<close> with an ordinary function \<open>f\<close> makes the next render return
  \<open>f e\<close> (or throw what \<open>f\<close> throws), where \<open>e\<close> is the stored value when the state is
  \<open>Changed\<close> at the time the call is processed, and otherwise the external value:
  \<^item> in the \<open>useReducer\<close>-based hook, the value resolved by the render that processes the
    call;
  \<^item> in the \<open>useState\<close>-based hook, the value captured by the \<^verbatim>\<open>setState\<close> handle that was
    called, which is the value resolved by the render that returned this handle.
\<close>

theorem functional_updater:
  "(unwrapV2 call a [] = Inr va
      \<and> reduceAll call va (state inst2) (dispatched inst2) = Inr s2
      \<longrightarrow> rendered (useFormStateV2 call a (setStateV2 (Callable f) inst2))
            = call f [effectiveValue s2 va])
   \<and> (unwrapV1 call a [] = Inr va
      \<and> applyUpdates call (formState inst1) (pending inst1) = Inr s1
      \<longrightarrow> rendered (useFormStateV1 call a (setStateV1 h (Callable f) inst1))
            = call f [effectiveValue s1 (captured h)])
   \<and> (cellsV1 inst0 \<and> useFormStateV1 call b inst0 = Inr ((e, h, r), inst1)
      \<and> unwrapV1 call b [] = Inr vb \<and> unwrapV1 call a [] = Inr va
      \<longrightarrow> rendered (useFormStateV1 call a (setStateV1 h (Callable f) inst1))
            = call f [effectiveValue (formState inst1) vb])"
proof (intro conjI impI)
  assume h: "unwrapV2 call a [] = Inr va
      \<and> reduceAll call va (state inst2) (dispatched inst2) = Inr s2"
  then have a: "unwrapV2 call a [] = Inr va"
    and s: "reduceAll call va (state inst2) (dispatched inst2) = Inr s2"
    by simp_all
  show "rendered (useFormStateV2 call a (setStateV2 (Callable f) inst2))
            = call f [effectiveValue s2 va]"
    unfolding rendered_V2 [OF a]
    using reduceAll_snoc [OF s, of "SET_STATE (Callable f)"] by (simp split: sum.splits)
next
  assume h: "unwrapV1 call a [] = Inr va
      \<and> applyUpdates call (formState inst1) (pending inst1) = Inr s1"
  then have a: "unwrapV1 call a [] = Inr va"
    and s: "applyUpdates call (formState inst1) (pending inst1) = Inr s1"
    by simp_all
  show "rendered (useFormStateV1 call a (setStateV1 h (Callable f) inst1))
            = call f [effectiveValue s1 (captured h)]"
    unfolding rendered_V1 [OF a]
    using applyUpdates_snoc [OF s, of "SetStateUpdater (Callable f) (captured h)"]
    by (simp split: sum.splits)
next
  assume h: "cellsV1 inst0 \<and> useFormStateV1 call b inst0 = Inr ((e, h, r), inst1)
      \<and> unwrapV1 call b [] = Inr vb \<and> unwrapV1 call a [] = Inr va"
  then have c: "cellsV1 inst0" and step: "useFormStateV1 call b inst0 = Inr ((e, h, r), inst1)"
    and b: "unwrapV1 call b [] = Inr vb" and a: "unwrapV1 call a [] = Inr va"
    by simp_all
  from useFormStateV1_cells(2) [OF c step] b have cap: "captured h = vb" by simp
  from useFormStateV1_inv [OF step]
  have s: "applyUpdates call (formState inst1) (pending inst1) = Inr (formState inst1)"
    by auto
  show "rendered (useFormStateV1 call a (setStateV1 h (Callable f) inst1))
            = call f [effectiveValue (formState inst1) vb]"
    unfolding rendered_V1 [OF a]
    using applyUpdates_snoc [OF s, of "SetStateUpdater (Callable f) (captured h)"] cap
    by (simp split: sum.splits)
qed

theorem functional_updater_witness:
  "unwrapV1 demoCall (Plain 10) [] = Inr (Plain 10)
   \<and> unwrapV2 demoCall (Plain 10) [] = Inr (Plain 10)
   \<and> reduceAll demoCall (Plain 10) (state demoInstV2) (dispatched demoInstV2) = Inr Unchanged
   \<and> rendered (useFormStateV2 demoCall (Plain 10) (setStateV2 (Callable Inc) demoInstV2))
       = Inr (Plain 11)
   \<and> applyUpdates demoCall (formState demoInstV1) (pending demoInstV1) = Inr Unchanged
   \<and> cellsV1 (mountV1 :: (int, demoFn) jsval InstanceV1)
   \<and> useFormStateV1 demoCall (Plain 1) mountV1
       = Inr ((Plain 1, SetStateV1 0 (Plain 1), ResetFn 0), demoInstV1)
   \<and> unwrapV1 demoCall (Plain 1) [] = Inr (Plain 1)
   \<and> rendered (useFormStateV1 demoCall (Plain 10)
         (setStateV1 (SetStateV1 0 (Plain 1)) (Callable Inc) demoInstV1))
       = Inr (Plain 2)
   \<and> applyUpdates demoCall (formState (demoInstV1\<lparr>formState := Changed (Plain 5)\<rparr>))
         (pending (demoInstV1\<lparr>formState := Changed (Plain 5)\<rparr>)) = Inr (Changed (Plain 5))
   \<and> rendered (useFormStateV1 demoCall (Plain 10)
         (setStateV1 (SetStateV1 0 (Plain 1)) (Callable Inc)
            (demoInstV1\<lparr>formState := Changed (Plain 5)\<rparr>)))
       = Inr (Plain 6)"
proof -
  have h: "unwrapV1 demoCall (Plain 10) [] = Inr (Plain 10)"
    "unwrapV2 demoCall (Plain 10) [] = Inr (Plain 10)"
    "reduceAll demoCall (Plain 10) (state demoInstV2) (dispatched demoInstV2) = Inr Unchanged"
    "applyUpdates demoCall (formState demoInstV1) (pending demoInstV1) = Inr Unchanged"
    "cellsV1 (mountV1 :: (int, demoFn) jsval InstanceV1)"
    "unwrapV1 demoCall (Plain 1) [] = Inr (Plain 1)"
    "applyUpdates demoCall (formState (demoInstV1\<lparr>formState := Changed (Plain 5)\<rparr>))
         (pending (demoInstV1\<lparr>formState := Changed (Plain 5)\<rparr>)) = Inr (Changed (Plain 5))"
    by (simp_all add: demoInstV1_def demoInstV2_def)
  note r = demoInstV1_reached
  from functional_updater [where call = demoCall and a = "Plain 10" and va = "Plain 10"
      and b = "Plain 1" and vb = "Plain 1" and f = Inc
      and ?inst2.0 = demoInstV2 and ?s2.0 = Unchanged
      and ?inst0.0 = mountV1 and ?inst1.0 = demoInstV1 and ?s1.0 = Unchanged
      and e = "Plain 1" and h = "SetStateV1 0 (Plain 1)" and r = "ResetFn 0"] h r
  have A: "rendered (useFormStateV2 demoCall (Plain 10) (setStateV2 (Callable Inc) demoInstV2))
       = Inr (Plain 11)"
    "rendered (useFormStateV1 demoCall (Plain 10)
         (setStateV1 (SetStateV1 0 (Plain 1)) (Callable Inc) demoInstV1))
       = Inr (Plain 2)"
    by simp_all
  from functional_updater [where call = demoCall and a = "Plain 10" and va = "Plain 10"
      and f = Inc and ?inst1.0 = "demoInstV1\<lparr>formState := Changed (Plain 5)\<rparr>"
      and ?s1.0 = "Changed (Plain 5)" and h = "SetStateV1 0 (Plain 1)"] h
  have B: "rendered (useFormStateV1 demoCall (Plain 10)
         (setStateV1 (SetStateV1 0 (Plain 1)) (Callable Inc)
            (demoInstV1\<lparr>formState := Changed (Plain 5)\<rparr>)))
       = Inr (Plain 6)"
    by simp
  from h r A B show ?thesis by blast
qed

section \<open>The two hooks compared\<close>

lemma eraseUpdate_updateOf [simp]: "eraseUpdate (updateOf handles c) = actionOf c"
  by (cases c) (simp_all add: updateOf_def actionOf_def)

lemma fresh_agree:
  "fresh call v s us \<Longrightarrow> applyUpdates call s us = reduceAll call v s (map eraseUpdate us)"
proof (induction us arbitrary: s)
  case Nil
  then show ?case by simp
next
  case (Cons u us)
  show ?case
  proof (cases u)
    case ResetObject
    with Cons show ?thesis by simp
  next
    case (SetStateUpdater p c)
    with Cons.prems have ord: "ordinary p"
      and cap: "s = Unchanged \<and> typeofFunction p \<longrightarrow> c = v"
      and rest: "case applyUpdate call (SetStateUpdater p c) s of
                   Inl e \<Rightarrow> True | Inr s' \<Rightarrow> fresh call v s' us"
      by simp_all
    have "unwrapV1 call p [effectiveValue s c] = unwrapV2 call p [effectiveValue s v]"
    proof (cases "typeofFunction p")
      case True
      with cap have "effectiveValue s c = effectiveValue s v"
        by (cases s) simp_all
      with ord show ?thesis by (simp add: ordinary_unwrap)
    next
      case False
      with ord show ?thesis by (cases p) simp_all
    qed
    then have step: "applyUpdate call (SetStateUpdater p c) s = reducer call v s (SET_STATE p)"
      by simp
    show ?thesis
    proof (cases "applyUpdate call (SetStateUpdater p c) s")
      case (Inl e)
      then have "reducer call v s (SET_STATE p) = Inl e" unfolding step .
      with Inl show ?thesis
        by (simp add: SetStateUpdater del: applyUpdate.simps reducer.simps)
    next
      case (Inr s')
      then have red: "reducer call v s (SET_STATE p) = Inr s'" unfolding step .
      from Inr rest have "fresh call v s' us" by simp
      from Cons.IH [OF this] Inr red show ?thesis
        by (simp add: SetStateUpdater del: applyUpdate.simps reducer.simps)
    qed
  qed
qed

lemma runs_agree:
  assumes "formState i1 = state i2"
    and "dispatched i2 = map eraseUpdate (pending i1)"
    and "(held1 = None) = (held2 = None)"
    and "inStep call i1 held1 evs"
  shows "map effective (runV1 call i1 held1 evs) = map effective (runV2 call i2 held2 evs)"
  using assms
proof (induction evs arbitrary: i1 i2 held1 held2)
  case Nil
  then show ?case by simp
next
  case (Cons ev evs)
  show ?case
  proof (cases ev)
    case (Render a)
    with Cons.prems(4) have ord: "ordinary a" by simp
    then have same: "unwrapV2 call a [] = unwrapV1 call a []"
      by (simp add: ordinary_unwrap)
    show ?thesis
    proof (cases "unwrapV1 call a []")
      case (Inl x)
      with same show ?thesis
        by (simp add: Render useFormStateV1_fault useFormStateV2_fault)
    next
      case (Inr v)
      with same have v2: "unwrapV2 call a [] = Inr v" by simp
      from Cons.prems(4) Render Inr have fr: "fresh call v (formState i1) (pending i1)"
        and rest: "case useFormStateV1 call a i1 of
                     Inl e \<Rightarrow> True | Inr (out, inst') \<Rightarrow> inStep call inst' (Some (snd out)) evs"
        by simp_all
      have q: "applyUpdates call (formState i1) (pending i1)
                 = reduceAll call v (state i2) (dispatched i2)"
        using fresh_agree [OF fr] Cons.prems(1,2) by simp
      show ?thesis
      proof (cases "applyUpdates call (formState i1) (pending i1)")
        case (Inl x)
        then have "useFormStateV1 call a i1 = Inl x"
          by (simp add: useFormStateV1_def Inr)
        moreover from Inl q have "useFormStateV2 call a i2 = Inl x"
          by (simp add: useFormStateV2_def v2)
        ultimately show ?thesis by (simp add: Render)
      next
        case s: (Inr s')
        from useFormStateV1_ok [OF Inr s] obtain h1 r1 i1' where
          st1: "useFormStateV1 call a i1 = Inr ((effectiveValue s' v, h1, r1), i1')"
          and n1: "formState i1' = s'" "pending i1' = []"
          by blast
        from s q have "reduceAll call v (state i2) (dispatched i2) = Inr s'" by simp
        from useFormStateV2_ok [OF v2 this] obtain h2 r2 i2' where
          st2: "useFormStateV2 call a i2 = Inr ((effectiveValue s' v, h2, r2), i2')"
          and n2: "state i2' = s'" "dispatched i2' = []"
          by blast
        from rest st1 have "inStep call i1' (Some (h1, r1)) evs" by simp
        then have "map effective (runV1 call i1' (Some (h1, r1)) evs)
                = map effective (runV2 call i2' (Some (h2, r2)) evs)"
          by (rule Cons.IH [rotated 3]) (use n1 n2 in simp_all)
        with st1 st2 show ?thesis by (simp add: Render)
      qed
    qed
  next
    case (Call c)
    show ?thesis
    proof (cases held1)
      case None
      with Cons.prems(3) have h2: "held2 = None" by simp
      from Cons.prems(4) Call None have "inStep call i1 held1 evs" by simp
      from Cons.IH [OF Cons.prems(1-3) this] show ?thesis
        by (simp add: Call None h2)
    next
      case (Some hs)
      with Cons.prems(3) obtain hs2 where h2: "held2 = Some hs2" by auto
      from Cons.prems(4) Call Some have "inStep call (callV1 hs c i1) held1 evs" by simp
      then have "map effective (runV1 call (callV1 hs c i1) held1 evs)
              = map effective (runV2 call (callV2 c i2) held2 evs)"
        by (rule Cons.IH [rotated 3]) (use Cons.prems(1-3) in simp_all)
      then show ?thesis by (simp add: Call Some h2)
    qed
  qed
qed

lemma plain_fresh:
  "(\<forall>p c. SetStateUpdater p c \<in> set us \<longrightarrow> ordinary p \<and> \<not> typeofFunction p)
     \<Longrightarrow> fresh call v s us"
proof (induction us arbitrary: s)
  case Nil
  then show ?case by simp
next
  case (Cons u us)
  from Cons.prems
  have "\<forall>p c. SetStateUpdater p c \<in> set us \<longrightarrow> ordinary p \<and> \<not> typeofFunction p"
    by simp
  then have rest: "\<And>s. fresh call v s us" by (rule Cons.IH)
  show ?case
  proof (cases u)
    case ResetObject
    with rest show ?thesis by simp
  next
    case (SetStateUpdater p c)
    with Cons.prems have "ordinary p" "\<not> typeofFunction p" by simp_all
    with rest show ?thesis by (simp add: SetStateUpdater split: sum.splits)
  qed
qed

lemma plain_inStep:
  assumes "\<forall>a. Render a \<in> set evs \<longrightarrow> ordinary a"
    and "\<forall>p. Call (SetValue p) \<in> set evs \<longrightarrow> ordinary p \<and> \<not> typeofFunction p"
    and "\<forall>p c. SetStateUpdater p c \<in> set (pending inst) \<longrightarrow> ordinary p \<and> \<not> typeofFunction p"
  shows "inStep call inst held evs"
  using assms
proof (induction evs arbitrary: inst held)
  case Nil
  then show ?case by simp
next
  case (Cons ev evs)
  from Cons.prems have r: "\<forall>a. Render a \<in> set evs \<longrightarrow> ordinary a"
    and p: "\<forall>p. Call (SetValue p) \<in> set evs \<longrightarrow> ordinary p \<and> \<not> typeofFunction p"
    by simp_all
  show ?case
  proof (cases ev)
    case (Render a)
    with Cons.prems(1) have ord: "ordinary a" by simp
    have "inStep call inst' (Some (snd out)) evs"
      if "useFormStateV1 call a inst = Inr (out, inst')" for out inst'
    proof -
      from useFormStateV1_inv [OF that] have "pending inst' = []" by blast
      then show ?thesis by (intro Cons.IH [OF r p]) simp
    qed
    with ord plain_fresh [OF Cons.prems(3)] show ?thesis
      by (auto simp: Render split: sum.splits)
  next
    case (Call c)
    show ?thesis
    proof (cases held)
      case None
      with Cons.IH [OF r p Cons.prems(3)] show ?thesis by (simp add: Call)
    next
      case (Some hs)
      have "\<forall>p c'. SetStateUpdater p c' \<in> set (pending (callV1 hs c inst))
              \<longrightarrow> ordinary p \<and> \<not> typeofFunction p"
        using Cons.prems(2,3) Call by (cases c) (auto simp: updateOf_def)
      from Cons.IH [OF r p this] show ?thesis by (simp add: Call Some)
    qed
  qed
qed

text \<open>
  Claim C9 (implementation equivalence) as stated fails: the updater of the
  \<open>useState\<close>-based hook applies a function payload to the external value captured by the
  handle, the reducer of the \<open>useReducer\<close>-based hook to the external value of the render that
  processes the call. After a render with \<open>3\<close>, a \<^verbatim>\<open>reset\<close> and a \<^verbatim>\<open>setValue\<close> with the
  successor function, a render with \<open>7\<close> returns \<open>4\<close> in the first hook and \<open>8\<close> in the
  second.
\<close>

theorem hooks_equivalence_counterexample:
  "map effective (runV1 demoCall mountV1 None
       [Render (Plain 3), Call Reset, Call (SetValue (Callable Inc)), Render (Plain 7)])
     = [Inr (Plain 3), Inr (Plain 4)]
   \<and> map effective (runV2 demoCall mountV2 None
       [Render (Plain 3), Call Reset, Call (SetValue (Callable Inc)), Render (Plain 7)])
     = [Inr (Plain 3), Inr (Plain 8)]
   \<and> map effective (runV1 demoCall mountV1 None
       [Render (Plain 3), Call Reset, Call (SetValue (Callable Inc)), Render (Plain 7)])
     \<noteq> map effective (runV2 demoCall mountV2 None
       [Render (Plain 3), Call Reset, Call (SetValue (Callable Inc)), Render (Plain 7)])"
proof -
  have a: "map effective (runV1 demoCall mountV1 None
       [Render (Plain 3), Call Reset, Call (SetValue (Callable Inc)), Render (Plain 7)])
     = [Inr (Plain 3), Inr (Plain 4)]"
    by code_simp
  have b: "map effective (runV2 demoCall mountV2 None
       [Render (Plain 3), Call Reset, Call (SetValue (Callable Inc)), Render (Plain 7)])
     = [Inr (Plain 3), Inr (Plain 8)]"
    by code_simp
  show ?thesis unfolding a b by simp
qed

text \<open>
  Claim C9, amended. Started on a fresh instance and driven by the same renders and the
  same calls of the handles of the latest render, the two hooks return the same effective
  values and throw the same faults on every execution in step, that is, on which
  \<^item> every render argument and every payload that is applied is a value on which
    \<^verbatim>\<open>instanceof Function\<close> and \<^verbatim>\<open>typeof\<close> agree (nothing is said of the other values), and
  \<^item> whenever a function payload is applied while the state is \<open>Unchanged\<close>, the render
    that applies it resolves the external value that the handle captured, which is the
    one resolved by the render before.

  In particular they agree on every execution whose render arguments are such values and
  whose payloads are plain values.
\<close>

theorem hooks_agree:
  "(inStep call mountV1 None evs
      \<longrightarrow> map effective (runV1 call mountV1 None evs)
            = map effective (runV2 call mountV2 None evs))
   \<and> ((\<forall>a. Render a \<in> set evs \<longrightarrow> ordinary a)
        \<and> (\<forall>p. Call (SetValue p) \<in> set evs \<longrightarrow> ordinary p \<and> \<not> typeofFunction p)
      \<longrightarrow> map effective (runV1 call mountV1 None evs)
            = map effective (runV2 call mountV2 None evs))"
proof -
  have main: "map effective (runV1 call mountV1 None evs)
            = map effective (runV2 call mountV2 None evs)"
    if "inStep call mountV1 None evs"
    by (rule runs_agree [OF _ _ _ that]) (simp_all add: mountV1_def mountV2_def)
  have "inStep call mountV1 None evs"
    if "\<forall>a. Render a \<in> set evs \<longrightarrow> ordinary a"
      and "\<forall>p. Call (SetValue p) \<in> set evs \<longrightarrow> ordinary p \<and> \<not> typeofFunction p"
    by (rule plain_inStep [OF that]) (simp add: mountV1_def)
  with main show ?thesis by blast
qed

theorem hooks_agree_witness:
  "map effective (runV1 demoCall mountV1 None
      [Render (Plain 1), Call (SetValue (Plain 5)), Render (Plain 1),
       Call (SetValue (Callable Inc)), Render (Plain 10), Call Reset,
       Call (SetValue (Callable Inc)), Render (Plain 10), Render (Callable (Const 8))])
     = [Inr (Plain 1), Inr (Plain 5), Inr (Plain 6), Inr (Plain 11), Inr (Plain 11)]
   \<and> map effective (runV2 demoCall mountV2 None
      [Render (Plain 1), Call (SetValue (Plain 5)), Render (Plain 1),
       Call (SetValue (Callable Inc)), Render (Plain 10), Call Reset,
       Call (SetValue (Callable Inc)), Render (Plain 10), Render (Callable (Const 8))])
     = [Inr (Plain 1), Inr (Plain 5), Inr (Plain 6), Inr (Plain 11), Inr (Plain 11)]
   \<and> map effective (runV1 demoCall mountV1 None
        [Render (Plain 1), Call (SetValue (Plain 9)), Render (Callable (Const 4))])
     = [Inr (Plain 1), Inr (Plain 9)]
   \<and> map effective (runV2 demoCall mountV2 None
        [Render (Plain 1), Call (SetValue (Plain 9)), Render (Callable (Const 4))])
     = [Inr (Plain 1), Inr (Plain 9)]"
proof -
  let ?evs = "[Render (Plain 1), Call (SetValue (Plain 5)), Render (Plain 1),
       Call (SetValue (Callable Inc)), Render (Plain 10), Call Reset,
       Call (SetValue (Callable Inc)), Render (Plain 10), Render (Callable (Const 8))]
       :: (int, demoFn) jsval event list"
  let ?evs2 = "[Render (Plain 1), Call (SetValue (Plain 9)), Render (Callable (Const 4))]
       :: (int, demoFn) jsval event list"
  have s: "inStep demoCall mountV1 None ?evs"
    by code_simp
  have p: "(\<forall>a. Render a \<in> set ?evs2 \<longrightarrow> ordinary a)
        \<and> (\<forall>p. Call (SetValue p) \<in> set ?evs2 \<longrightarrow> ordinary p \<and> \<not> typeofFunction p)"
    by auto
  have r2: "map effective (runV2 demoCall mountV2 None ?evs)
     = [Inr (Plain 1), Inr (Plain 5), Inr (Plain 6), Inr (Plain 11), Inr (Plain 11)]"
    by code_simp
  have q2: "map effective (runV2 demoCall mountV2 None ?evs2) = [Inr (Plain 1), Inr (Plain 9)]"
    by code_simp
  from hooks_agree [of demoCall ?evs] s r2
  have r1: "map effective (runV1 demoCall mountV1 None ?evs)
     = [Inr (Plain 1), Inr (Plain 5), Inr (Plain 6), Inr (Plain 11), Inr (Plain 11)]"
    by simp
  from hooks_agree [of demoCall ?evs2] p q2
  have q1: "map effective (runV1 demoCall mountV1 None ?evs2) = [Inr (Plain 1), Inr (Plain 9)]"
    by simp
  from r1 r2 q1 q2 show ?thesis by blast
qed

end
